theory Spec2Isabelle
  imports Main
begin

section \<open>Route prefetching (client/src/hooks/usePrefetchRoutes.ts)\<close>

text \<open>
  The module keeps one process-wide set of routes whose page bundle has been loaded
  (\<open>prefetchedRoutes\<close>), one reference cell with the authentication flag seen by the
  last effect run that got past its guards (\<open>previousAuthState\<close>), and hands callbacks to
  the browser: \<open>setTimeout\<close>, \<open>requestIdleCallback\<close> and the promise of a dynamic
  \<open>import\<close>. The browser side is modelled as explicit state: a list of tasks that have been
  handed over and not run yet, the list of loader promises that have not settled yet, the
  console, and a clock in milliseconds. One step of the event loop runs one task, settles
  one promise, runs one of the two effects, or lets time pass.
\<close>

subsection \<open>Strings\<close>

text \<open>
  Strings are lists of bytes here. Every route name and each of the separators \<open>?\<close>,
  \<open>#\<close> and \<open>/\<close> is ASCII, so cutting at a separator and testing a prefix come out the
  same on the bytes of a string as on its UTF-16 code units.
\<close>

definition startsWith :: "string \<Rightarrow> string \<Rightarrow> bool" where
  "startsWith s p = (take (length p) s = p)"

text \<open>
  \<open>s.split(c)\<close> for a separator of one character: the pieces between the separators, at
  least one piece (\<open>''''.split(c)\<close> is \<open>['''']\<close>).
\<close>

fun js_split :: "char \<Rightarrow> string \<Rightarrow> string list" where
  "js_split c [] = [[]]"
| "js_split c (x # xs) =
     (if x = c then [] # js_split c xs
      else (case js_split c xs of
              [] \<Rightarrow> [[x]]
            | piece # pieces \<Rightarrow> (x # piece) # pieces))"

subsection \<open>The environment: network information and idle scheduling\<close>

record connection =
  saveData :: bool
  effectiveType :: "string option"

text \<open>
  \<open>navigator\<close> may be missing altogether (\<open>typeof navigator === 'undefined'\<close>); each of
  its three connection properties may be undefined.
\<close>

record navigator =
  connection :: "connection option"
  mozConnection :: "connection option"
  webkitConnection :: "connection option"

record env =
  navigator :: "navigator option"
  hasRequestIdleCallback :: bool

text \<open>\<open>a || b || c\<close> on values that are either an object or undefined.\<close>

definition selectedConnection :: "navigator \<Rightarrow> connection option" where
  "selectedConnection nav =
     (case connection nav of
        Some c \<Rightarrow> Some c
      | None \<Rightarrow> (case mozConnection nav of
                   Some c \<Rightarrow> Some c
                 | None \<Rightarrow> webkitConnection nav))"

definition slowConnections :: "string list" where
  "slowConnections = [''slow-2g'', ''2g'']"

definition shouldPrefetch :: "env \<Rightarrow> bool" where
  "shouldPrefetch e =
     (case navigator e of
        None \<Rightarrow> False
      | Some nav \<Rightarrow>
          (case selectedConnection nav of
             None \<Rightarrow> True
           | Some c \<Rightarrow>
               if saveData c then False
               else if (case effectiveType c of
                          None \<Rightarrow> False
                        | Some t \<Rightarrow> t \<in> set slowConnections) then False
               else True))"

subsection \<open>The route table\<close>

text \<open>Route path and the module its loader imports.\<close>

definition routeComponentMap :: "(string \<times> string) list" where
  "routeComponentMap =
     [(''/'', ''@/pages/home-page''),
      (''/catalog'', ''@/pages/catalog-page''),
      (''/products'', ''@/pages/product-detail-page''),
      (''/cart'', ''@/pages/cart-page''),
      (''/wishlist'', ''@/pages/wishlist-page''),
      (''/profile'', ''@/pages/profile-page''),
      (''/checkout'', ''@/pages/checkout-page''),
      (''/login'', ''@/pages/login-page''),
      (''/register'', ''@/pages/register-page''),
      (''/verify-email'', ''@/pages/verify-email-page''),
      (''/privacy-policy'', ''@/pages/privacy-policy-page''),
      (''/admin'', ''@/pages/admin/dashboard-page''),
      (''/admin/users'', ''@/pages/admin/users-page''),
      (''/admin/products'', ''@/pages/admin/products-page''),
      (''/admin/categories'', ''@/pages/admin/categories-page''),
      (''/admin/promocodes'', ''@/pages/admin/promocodes-page''),
      (''/admin/orders'', ''@/pages/admin/orders-page''),
      (''/admin/support'', ''@/pages/admin/support-chat-page'')]"

text \<open>
  \<open>routeComponentMap\<close> is an object literal, so \<open>routeComponentMap[route]\<close> is a property
  read: an own property of the literal first, then the properties every object inherits
  from \<open>Object.prototype\<close>. None of the inherited values is a loader: one is not callable
  at all (\<open>__proto__\<close>), the others are functions whose call either throws or returns
  something without a \<open>then\<close> method, so \<open>loader().then(...)\<close> throws a TypeError in each
  case before any promise exists.
\<close>

definition objectPrototypeKeys :: "string list" where
  "objectPrototypeKeys =
     [''constructor'', ''__defineGetter__'', ''__defineSetter__'', ''hasOwnProperty'',
      ''__lookupGetter__'', ''__lookupSetter__'', ''isPrototypeOf'',
      ''propertyIsEnumerable'', ''toString'', ''valueOf'', ''__proto__'',
      ''toLocaleString'']"

datatype property = Loader string | Inherited | Undefined

definition getProperty :: "string \<Rightarrow> property" where
  "getProperty route =
     (case map_of routeComponentMap route of
        Some module \<Rightarrow> Loader module
      | None \<Rightarrow> if route \<in> set objectPrototypeKeys then Inherited else Undefined)"

definition adminRoutes :: "string list" where
  "adminRoutes =
     [''/admin'', ''/admin/products'', ''/admin/categories'', ''/admin/orders'',
      ''/admin/promocodes'', ''/admin/users'', ''/admin/support'']"

subsection \<open>State\<close>

datatype console_message =
    NoLoaderFound string
  | Prefetched string
  | FailedToPrefetch string
  | JustAuthenticated
  | StaffUserDetected
  | OnAdminPage
  | DetectedReturnUrl string
  | Uncaught string

text \<open>The closures the module hands to \<open>setTimeout\<close> and \<open>requestIdleCallback\<close>.\<close>

datatype callback =
    WaveCallback "string list"
  | PrefetchCallback string
  | LoginBurstCallback bool
  | AdminBurstCallback
  | ReturnUrlCallback string

text \<open>
  A timer with the time it is due at, or an idle request with the timeout the caller gave.
\<close>

datatype task = Timeout nat callback | IdleRequest callback "nat option"

record state =
  prefetchedRoutes :: "string set"
  previousAuthState :: "bool option"
  tasks :: "task list"
  pendingLoads :: "string list"
  loaderCalls :: "string list"
  console :: "console_message list"
  now :: nat

definition initialState :: state where
  "initialState =
     \<lparr>prefetchedRoutes = {}, previousAuthState = None, tasks = [], pendingLoads = [],
      loaderCalls = [], console = [], now = 0\<rparr>"

datatype outcome = Returns state | Throws string state

definition andThen :: "outcome \<Rightarrow> (state \<Rightarrow> outcome) \<Rightarrow> outcome" where
  "andThen r f = (case r of Returns s \<Rightarrow> f s | Throws e s \<Rightarrow> Throws e s)"

definition say :: "console_message \<Rightarrow> state \<Rightarrow> state" where
  "say m s = s\<lparr>console := console s @ [m]\<rparr>"

subsection \<open>Scheduling primitives\<close>

definition safeRequestIdleCallback :: "env \<Rightarrow> callback \<Rightarrow> nat option \<Rightarrow> state \<Rightarrow> state" where
  "safeRequestIdleCallback e cb options s =
     (if hasRequestIdleCallback e
      then s\<lparr>tasks := tasks s @ [IdleRequest cb options]\<rparr>
      else s\<lparr>tasks := tasks s @ [Timeout (now s + 1) cb]\<rparr>)"

definition prefetchWithDelay :: "string list \<Rightarrow> nat \<Rightarrow> state \<Rightarrow> state" where
  "prefetchWithDelay routes delay s =
     s\<lparr>tasks := tasks s @ [Timeout (now s + delay) (WaveCallback routes)]\<rparr>"

subsection \<open>prefetchRoute\<close>

text \<open>
  The call returns once the loader has been invoked; the promise it returned is pending
  and is settled by a later step of the event loop (\<open>settle\<close> below).
\<close>

definition prefetchRoute :: "string \<Rightarrow> state \<Rightarrow> outcome" where
  "prefetchRoute route s =
     (if route \<in> prefetchedRoutes s then Returns s
      else (case getProperty route of
              Undefined \<Rightarrow> Returns (say (NoLoaderFound route) s)
            | Inherited \<Rightarrow> Throws ''TypeError'' s
            | Loader module \<Rightarrow>
                Returns (s\<lparr>loaderCalls := loaderCalls s @ [route],
                            pendingLoads := pendingLoads s @ [route]\<rparr>)))"

fun prefetchEach :: "string list \<Rightarrow> state \<Rightarrow> outcome" where
  "prefetchEach [] s = Returns s"
| "prefetchEach (route # routes) s = andThen (prefetchRoute route s) (prefetchEach routes)"

text \<open>The \<open>then\<close> and \<open>catch\<close> handlers of the promise of one loader call.\<close>

definition settle :: "string \<Rightarrow> bool \<Rightarrow> state \<Rightarrow> state" where
  "settle route fulfilled s =
     (if fulfilled
      then say (Prefetched route) (s\<lparr>prefetchedRoutes := insert route (prefetchedRoutes s)\<rparr>)
      else say (FailedToPrefetch route) s)"

subsection \<open>usePrefetchRoutes\<close>

record user =
  roles :: "string list option"

record auth =
  isAuthenticated :: bool
  authInitialized :: bool
  user :: "user option"

definition staffRoles :: "string list" where
  "staffRoles = [''admin'', ''marketer'', ''consultant'']"

text \<open>\<open>user?.roles?.some(...)\<close>, which is only ever tested for truthiness.\<close>

definition hasStaffRole :: "auth \<Rightarrow> bool" where
  "hasStaffRole a =
     (case user a of
        None \<Rightarrow> False
      | Some u \<Rightarrow> (case roles u of
                    None \<Rightarrow> False
                  | Some rs \<Rightarrow> list_ex (\<lambda>role. role \<in> set staffRoles) rs))"

text \<open>\<open>(location || '').startsWith('/admin')\<close>, for the location string of the router.\<close>

definition isOnAdminPage :: "string \<Rightarrow> bool" where
  "isOnAdminPage location = startsWith location ''/admin''"

definition scheduleWaves :: "auth \<Rightarrow> state \<Rightarrow> state" where
  "scheduleWaves a s =
     (if \<not> isAuthenticated a then
        prefetchWithDelay [''/privacy-policy''] 5000
          (prefetchWithDelay [''/catalog'', ''/products''] 1000
            (prefetchWithDelay [''/login'', ''/register''] 0 s))
      else
        (let s3 = prefetchWithDelay [''/privacy-policy''] 5000
                    (prefetchWithDelay [''/profile'', ''/checkout''] 3000
                      (prefetchWithDelay [''/catalog'', ''/cart'', ''/wishlist'', ''/products''] 0 s))
         in if hasStaffRole a then prefetchWithDelay adminRoutes 7000 s3 else s3))"

definition loginBurst :: "env \<Rightarrow> auth \<Rightarrow> state \<Rightarrow> state" where
  "loginBurst e a s =
     (if previousAuthState s = Some False \<and> isAuthenticated a
      then safeRequestIdleCallback e (LoginBurstCallback (hasStaffRole a)) None
             (say JustAuthenticated s)
      else s)"

definition adminBurst :: "env \<Rightarrow> auth \<Rightarrow> string \<Rightarrow> state \<Rightarrow> state" where
  "adminBurst e a location s =
     (if isOnAdminPage location \<and> hasStaffRole a \<and> ''/admin'' \<notin> prefetchedRoutes s
      then safeRequestIdleCallback e AdminBurstCallback None (say OnAdminPage s)
      else s)"

text \<open>One run of the effect of \<open>usePrefetchRoutes\<close>.\<close>

definition usePrefetchRoutes :: "env \<Rightarrow> auth \<Rightarrow> string \<Rightarrow> state \<Rightarrow> state" where
  "usePrefetchRoutes e a location s =
     (if \<not> authInitialized a \<or> \<not> shouldPrefetch e then s
      else (adminBurst e a location (loginBurst e a (scheduleWaves a s)))
             \<lparr>previousAuthState := Some (isAuthenticated a)\<rparr>)"

subsection \<open>usePrefetchFromReturnUrl\<close>

definition normalizedUrl :: "string \<Rightarrow> string" where
  "normalizedUrl returnUrl = hd (js_split CHR ''#'' (hd (js_split CHR ''?'' returnUrl)))"

text \<open>The route the idle callback asks for, if any.\<close>

definition returnUrlRoute :: "string \<Rightarrow> string option" where
  "returnUrlRoute returnUrl =
     (let n = normalizedUrl returnUrl in
      if startsWith n ''/cart'' then Some ''/cart''
      else if startsWith n ''/wishlist'' then Some ''/wishlist''
      else if startsWith n ''/profile'' then Some ''/profile''
      else if startsWith n ''/checkout'' then Some ''/checkout''
      else if startsWith n ''/admin'' then
        (let segments = js_split CHR ''/'' n in
         if length segments = 2 then Some ''/admin''
         else if length segments = 3 then Some (''/admin/'' @ segments ! 2)
         else None)
      else None)"

text \<open>
  One run of the effect of \<open>usePrefetchFromReturnUrl\<close>; the argument is what
  \<open>params.get('returnUrl')\<close> gave (\<open>null\<close> and the empty string are both falsy).
\<close>

definition usePrefetchFromReturnUrl :: "env \<Rightarrow> string option \<Rightarrow> state \<Rightarrow> state" where
  "usePrefetchFromReturnUrl e returnUrl s =
     (if \<not> shouldPrefetch e then s
      else (case returnUrl of
              None \<Rightarrow> s
            | Some u \<Rightarrow>
                if u = [] then s
                else safeRequestIdleCallback e (ReturnUrlCallback u) (Some 500)
                       (say (DetectedReturnUrl u) s)))"

subsection \<open>Running a callback\<close>

definition fireWave :: "env \<Rightarrow> string list \<Rightarrow> state \<Rightarrow> state" where
  "fireWave e routes s =
     (if shouldPrefetch e
      then foldl (\<lambda>s' route. safeRequestIdleCallback e (PrefetchCallback route) (Some 2000) s')
             s routes
      else s)"

fun runCallback :: "env \<Rightarrow> callback \<Rightarrow> state \<Rightarrow> outcome" where
  "runCallback e (WaveCallback routes) s = Returns (fireWave e routes s)"
| "runCallback e (PrefetchCallback route) s = prefetchRoute route s"
| "runCallback e (LoginBurstCallback staff) s =
     andThen (prefetchEach [''/cart'', ''/wishlist'', ''/profile''] s)
       (\<lambda>s'. Returns (if staff then prefetchWithDelay adminRoutes 1000 (say StaffUserDetected s')
                       else s'))"
| "runCallback e AdminBurstCallback s = prefetchEach adminRoutes s"
| "runCallback e (ReturnUrlCallback returnUrl) s =
     (case returnUrlRoute returnUrl of
        None \<Rightarrow> Returns s
      | Some route \<Rightarrow> prefetchRoute route s)"

subsection \<open>The event loop\<close>

datatype event =
    Render auth string
  | Mount "string option"
  | RunTask nat
  | SettleLoad nat bool
  | Elapse nat

definition dropAt :: "nat \<Rightarrow> 'a list \<Rightarrow> 'a list" where
  "dropAt i xs = take i xs @ drop (Suc i) xs"

text \<open>An exception that leaves a callback is reported and the loop goes on.\<close>

definition finish :: "outcome \<Rightarrow> state" where
  "finish r = (case r of Returns s \<Rightarrow> s | Throws e s \<Rightarrow> say (Uncaught e) s)"

text \<open>
  A timer runs no earlier than it is due; an idle request runs whenever the browser
  takes it up. \<open>None\<close>: the event cannot happen in this state.
\<close>

definition step :: "env \<Rightarrow> event \<Rightarrow> state \<Rightarrow> state option" where
  "step e ev s =
     (case ev of
        Render a location \<Rightarrow> Some (usePrefetchRoutes e a location s)
      | Mount returnUrl \<Rightarrow> Some (usePrefetchFromReturnUrl e returnUrl s)
      | RunTask i \<Rightarrow>
          (if i < length (tasks s) then
             (case tasks s ! i of
                Timeout due cb \<Rightarrow>
                  if due \<le> now s
                  then Some (finish (runCallback e cb (s\<lparr>tasks := dropAt i (tasks s)\<rparr>)))
                  else None
              | IdleRequest cb options \<Rightarrow>
                  Some (finish (runCallback e cb (s\<lparr>tasks := dropAt i (tasks s)\<rparr>))))
           else None)
      | SettleLoad i fulfilled \<Rightarrow>
          (if i < length (pendingLoads s)
           then Some (settle (pendingLoads s ! i) fulfilled
                        (s\<lparr>pendingLoads := dropAt i (pendingLoads s)\<rparr>))
           else None)
      | Elapse d \<Rightarrow> Some (s\<lparr>now := now s + d\<rparr>))"

text \<open>A run of the loop: each event with the environment as it is when it happens.\<close>

fun run :: "(env \<times> event) list \<Rightarrow> state \<Rightarrow> state option" where
  "run [] s = Some s"
| "run ((e, ev) # rest) s = (case step e ev s of None \<Rightarrow> None | Some s' \<Rightarrow> run rest s')"

subsection \<open>Observations used in the statements\<close>

text \<open>The state a call leaves behind, whether it returned or threw.\<close>

fun stateOf :: "outcome \<Rightarrow> state" where
  "stateOf (Returns s) = s"
| "stateOf (Throws e s) = s"

text \<open>The timers of staged waves among a list of tasks: due time and routes.\<close>

fun waveTimers :: "task list \<Rightarrow> (nat \<times> string list) list" where
  "waveTimers [] = []"
| "waveTimers (Timeout due (WaveCallback routes) # ts) = (due, routes) # waveTimers ts"
| "waveTimers (t # ts) = waveTimers ts"

text \<open>
  The task \<open>safeRequestIdleCallback\<close> adds for a callback when called at a given time:
  an idle request where the browser has \<open>requestIdleCallback\<close>, a timer of one
  millisecond otherwise.
\<close>

definition deferred :: "env \<Rightarrow> nat \<Rightarrow> callback \<Rightarrow> nat option \<Rightarrow> task" where
  "deferred e time cb options =
     (if hasRequestIdleCallback e then IdleRequest cb options else Timeout (time + 1) cb)"

text \<open>
  The network gate in the words of the specification: the environment reports a
  data-saver preference, or an effective connection type that is \<open>slow-2g\<close> or \<open>2g\<close>.
  The environment reports through the connection objects of the navigator, whichever of
  the three are there.
\<close>

definition connectionObjects :: "navigator \<Rightarrow> connection list" where
  "connectionObjects nav =
     List.map_filter (\<lambda>c. c) [connection nav, mozConnection nav, webkitConnection nav]"

definition reportsRestriction :: "env \<Rightarrow> bool" where
  "reportsRestriction e =
     (case navigator e of
        None \<Rightarrow> False
      | Some nav \<Rightarrow>
          list_ex (\<lambda>c. saveData c \<or> effectiveType c = Some ''slow-2g''
                       \<or> effectiveType c = Some ''2g'')
            (connectionObjects nav))"

text \<open>
  The routes a waiting callback carries, the callback of a task, and the states in which
  every route carried by a waiting callback is a path (starts with \<open>/\<close>).
\<close>

fun callbackRoutes :: "callback \<Rightarrow> string list" where
  "callbackRoutes (WaveCallback routes) = routes"
| "callbackRoutes (PrefetchCallback route) = [route]"
| "callbackRoutes cb = []"

fun taskCallback :: "task \<Rightarrow> callback" where
  "taskCallback (Timeout due cb) = cb"
| "taskCallback (IdleRequest cb options) = cb"

definition pathsOnly :: "state \<Rightarrow> bool" where
  "pathsOnly s \<longleftrightarrow>
     list_all (\<lambda>t. list_all (\<lambda>route. startsWith route ''/'') (callbackRoutes (taskCallback t)))
       (tasks s)"

fun isUncaught :: "console_message \<Rightarrow> bool" where
  "isUncaught (Uncaught e) = True"
| "isUncaught m = False"

text \<open>The routes a callback calls \<open>prefetchRoute\<close> with when it runs, in order.\<close>

fun requestedRoutes :: "callback \<Rightarrow> string list" where
  "requestedRoutes (WaveCallback routes) = []"
| "requestedRoutes (PrefetchCallback route) = [route]"
| "requestedRoutes (LoginBurstCallback staff) = [''/cart'', ''/wishlist'', ''/profile'']"
| "requestedRoutes AdminBurstCallback = adminRoutes"
| "requestedRoutes (ReturnUrlCallback returnUrl) =
     (case returnUrlRoute returnUrl of None \<Rightarrow> [] | Some route \<Rightarrow> [route])"

subsection \<open>Concrete inputs\<close>

text \<open>A browser with a navigator that carries no connection information.\<close>

definition plainBrowser :: env where
  "plainBrowser =
     \<lparr>navigator = Some \<lparr>connection = None, mozConnection = None, webkitConnection = None\<rparr>,
      hasRequestIdleCallback = True\<rparr>"

text \<open>The same browser with the data saver switched on.\<close>

definition dataSaverBrowser :: env where
  "dataSaverBrowser =
     \<lparr>navigator = Some \<lparr>connection = Some \<lparr>saveData = True, effectiveType = Some ''4g''\<rparr>,
                          mozConnection = None, webkitConnection = None\<rparr>,
      hasRequestIdleCallback = True\<rparr>"

text \<open>
  A browser whose \<open>connection\<close> object reports nothing and whose \<open>mozConnection\<close> object
  reports the data saver.
\<close>

definition twoObjectsBrowser :: env where
  "twoObjectsBrowser =
     \<lparr>navigator = Some \<lparr>connection = Some \<lparr>saveData = False, effectiveType = Some ''4g''\<rparr>,
                          mozConnection = Some \<lparr>saveData = True, effectiveType = Some ''4g''\<rparr>,
                          webkitConnection = None\<rparr>,
      hasRequestIdleCallback = True\<rparr>"

text \<open>An environment without a navigator object.\<close>

definition noNavigator :: env where
  "noNavigator = \<lparr>navigator = None, hasRequestIdleCallback = True\<rparr>"

definition anonymous :: auth where
  "anonymous = \<lparr>isAuthenticated = False, authInitialized = True, user = None\<rparr>"

definition customer :: auth where
  "customer =
     \<lparr>isAuthenticated = True, authInitialized = True,
      user = Some \<lparr>roles = Some [''customer'']\<rparr>\<rparr>"

definition marketer :: auth where
  "marketer =
     \<lparr>isAuthenticated = True, authInitialized = True,
      user = Some \<lparr>roles = Some [''customer'', ''marketer'']\<rparr>\<rparr>"

section \<open>Basic facts\<close>

lemma js_split_not_Nil [simp]: "js_split c s \<noteq> []"
  by (induction s) (auto split: list.splits)

lemma hd_js_split: "hd (js_split c s) = takeWhile (\<lambda>x. x \<noteq> c) s"
  by (induction s) (auto split: list.splits)

lemma length_js_split: "length (js_split c s) = Suc (length (filter (\<lambda>x. x = c) s))"
  by (induction s) (auto split: list.splits)

lemma js_split_no_separator: "c \<notin> set s \<Longrightarrow> js_split c s = [s]"
  by (induction s) auto

lemma js_split_append:
  "c \<notin> set s \<Longrightarrow> js_split c (s @ c # t) = s # js_split c t"
  by (induction s) auto

lemma map_of_routeComponentMap_slash:
  "map_of routeComponentMap route = Some module \<Longrightarrow> startsWith route ''/''"
  by (auto simp: routeComponentMap_def startsWith_def split: if_splits)

lemma slash_not_inherited: "startsWith route ''/'' \<Longrightarrow> route \<notin> set objectPrototypeKeys"
  by (auto simp: objectPrototypeKeys_def startsWith_def)

lemma getProperty_Loader: "getProperty route = Loader module \<longleftrightarrow> map_of routeComponentMap route = Some module"
  by (auto simp: getProperty_def split: option.splits)

lemma getProperty_Undefined:
  "getProperty route = Undefined \<longleftrightarrow> map_of routeComponentMap route = None \<and> route \<notin> set objectPrototypeKeys"
  by (auto simp: getProperty_def split: option.splits)

lemma getProperty_Inherited:
  "getProperty route = Inherited \<longleftrightarrow> route \<in> set objectPrototypeKeys"
proof -
  have "map_of routeComponentMap route = None" if "route \<in> set objectPrototypeKeys"
  proof (cases "map_of routeComponentMap route")
    case None then show ?thesis .
  next
    case (Some m)
    then show ?thesis using that slash_not_inherited map_of_routeComponentMap_slash by blast
  qed
  then show ?thesis by (auto simp: getProperty_def split: option.splits)
qed

text \<open>What a call of prefetchRoute can change.\<close>

lemma prefetchRoute_frame:
  "prefetchedRoutes (stateOf (prefetchRoute route s)) = prefetchedRoutes s"
  "previousAuthState (stateOf (prefetchRoute route s)) = previousAuthState s"
  "tasks (stateOf (prefetchRoute route s)) = tasks s"
  "now (stateOf (prefetchRoute route s)) = now s"
  by (simp_all add: prefetchRoute_def say_def split: property.splits)

lemma prefetchRoute_loaderCalls:
  "loaderCalls (stateOf (prefetchRoute route s)) =
     loaderCalls s @ (if route \<notin> prefetchedRoutes s \<and> map_of routeComponentMap route \<noteq> None
                      then [route] else [])"
  by (auto simp: prefetchRoute_def say_def getProperty_def split: property.splits option.splits if_splits)

lemma prefetchEach_frame:
  "prefetchedRoutes (stateOf (prefetchEach routes s)) = prefetchedRoutes s \<and>
   previousAuthState (stateOf (prefetchEach routes s)) = previousAuthState s \<and>
   tasks (stateOf (prefetchEach routes s)) = tasks s \<and>
   now (stateOf (prefetchEach routes s)) = now s"
proof (induction routes arbitrary: s)
  case Nil
  show ?case by simp
next
  case (Cons r rs)
  show ?case
  proof (cases "prefetchRoute r s")
    case (Returns s1)
    then have "stateOf (prefetchRoute r s) = s1" by simp
    with prefetchRoute_frame [of r s] Cons [of s1] Returns show ?thesis
      by (simp add: andThen_def)
  next
    case (Throws e s1)
    then have "stateOf (prefetchRoute r s) = s1" by simp
    with prefetchRoute_frame [of r s] Throws show ?thesis
      by (simp add: andThen_def)
  qed
qed

lemma prefetchEach_loaderCalls:
  "\<exists>new. loaderCalls (stateOf (prefetchEach routes s)) = loaderCalls s @ new \<and>
         set new \<inter> prefetchedRoutes s = {}"
proof (induction routes arbitrary: s)
  case Nil
  show ?case by simp
next
  case (Cons r rs)
  show ?case
  proof (cases "prefetchRoute r s")
    case (Returns s1)
    then have s1: "stateOf (prefetchRoute r s) = s1" by simp
    from Cons [of s1] obtain new where
      new: "loaderCalls (stateOf (prefetchEach rs s1)) = loaderCalls s1 @ new"
           "set new \<inter> prefetchedRoutes s1 = {}" by blast
    from s1 prefetchRoute_frame(1) [of r s] have p: "prefetchedRoutes s1 = prefetchedRoutes s" by simp
    from s1 prefetchRoute_loaderCalls [of r s]
    obtain first where first: "loaderCalls s1 = loaderCalls s @ first" "set first \<inter> prefetchedRoutes s = {}"
      by (auto split: if_splits)
    from new first p Returns show ?thesis
      by (auto simp: andThen_def intro!: exI [of _ "first @ new"])
  next
    case (Throws e s1)
    then have s1: "stateOf (prefetchRoute r s) = s1" by simp
    from s1 prefetchRoute_loaderCalls [of r s]
    obtain first where first: "loaderCalls s1 = loaderCalls s @ first" "set first \<inter> prefetchedRoutes s = {}"
      by (auto split: if_splits)
    with Throws show ?thesis by (auto simp: andThen_def)
  qed
qed

text \<open>Routes of the table, asked for in a row: each one not yet loaded has its loader called.\<close>

lemma prefetchEach_registered:
  "\<forall>r \<in> set routes. map_of routeComponentMap r \<noteq> None \<Longrightarrow>
   prefetchEach routes s =
     Returns (s\<lparr>loaderCalls := loaderCalls s @ filter (\<lambda>r. r \<notin> prefetchedRoutes s) routes,
               pendingLoads := pendingLoads s @ filter (\<lambda>r. r \<notin> prefetchedRoutes s) routes\<rparr>)"
proof (induction routes arbitrary: s)
  case Nil
  show ?case by simp
next
  case (Cons r rs)
  from Cons.prems obtain m where m: "getProperty r = Loader m"
    by (auto simp: getProperty_def)
  from Cons.prems have rest: "\<forall>r \<in> set rs. map_of routeComponentMap r \<noteq> None" by simp
  show ?case
  proof (cases "r \<in> prefetchedRoutes s")
    case True
    then show ?thesis using Cons.IH [OF rest, of s]
      by (simp add: prefetchRoute_def andThen_def)
  next
    case False
    then show ?thesis using m Cons.IH [OF rest]
      by (simp add: prefetchRoute_def andThen_def)
  qed
qed

lemma fireWave_eq:
  "fireWave e routes s =
     (if shouldPrefetch e
      then s\<lparr>tasks := tasks s @
                map (\<lambda>route. deferred e (now s) (PrefetchCallback route) (Some 2000)) routes\<rparr>
      else s)"
proof -
  have "foldl (\<lambda>s' route. safeRequestIdleCallback e (PrefetchCallback route) (Some 2000) s') s routes =
        s\<lparr>tasks := tasks s @
                map (\<lambda>route. deferred e (now s) (PrefetchCallback route) (Some 2000)) routes\<rparr>"
    by (induction routes arbitrary: s) (simp_all add: safeRequestIdleCallback_def deferred_def)
  then show ?thesis by (simp add: fireWave_def)
qed

lemma say_fields [simp]:
  "prefetchedRoutes (say m s) = prefetchedRoutes s"
  "previousAuthState (say m s) = previousAuthState s"
  "tasks (say m s) = tasks s"
  "pendingLoads (say m s) = pendingLoads s"
  "loaderCalls (say m s) = loaderCalls s"
  "now (say m s) = now s"
  "console (say m s) = console s @ [m]"
  by (simp_all add: say_def)

lemma safeRequestIdleCallback_fields [simp]:
  "prefetchedRoutes (safeRequestIdleCallback e cb opts s) = prefetchedRoutes s"
  "previousAuthState (safeRequestIdleCallback e cb opts s) = previousAuthState s"
  "pendingLoads (safeRequestIdleCallback e cb opts s) = pendingLoads s"
  "loaderCalls (safeRequestIdleCallback e cb opts s) = loaderCalls s"
  "now (safeRequestIdleCallback e cb opts s) = now s"
  "console (safeRequestIdleCallback e cb opts s) = console s"
  "tasks (safeRequestIdleCallback e cb opts s) = tasks s @ [deferred e (now s) cb opts]"
  by (simp_all add: safeRequestIdleCallback_def deferred_def)

lemma prefetchWithDelay_fields [simp]:
  "prefetchedRoutes (prefetchWithDelay routes delay s) = prefetchedRoutes s"
  "previousAuthState (prefetchWithDelay routes delay s) = previousAuthState s"
  "pendingLoads (prefetchWithDelay routes delay s) = pendingLoads s"
  "loaderCalls (prefetchWithDelay routes delay s) = loaderCalls s"
  "now (prefetchWithDelay routes delay s) = now s"
  "console (prefetchWithDelay routes delay s) = console s"
  "tasks (prefetchWithDelay routes delay s) = tasks s @ [Timeout (now s + delay) (WaveCallback routes)]"
  by (simp_all add: prefetchWithDelay_def)

lemma scheduleWaves_fields [simp]:
  "prefetchedRoutes (scheduleWaves a s) = prefetchedRoutes s"
  "previousAuthState (scheduleWaves a s) = previousAuthState s"
  "pendingLoads (scheduleWaves a s) = pendingLoads s"
  "loaderCalls (scheduleWaves a s) = loaderCalls s"
  "now (scheduleWaves a s) = now s"
  "console (scheduleWaves a s) = console s"
  by (simp_all add: scheduleWaves_def Let_def)

lemma loginBurst_fields [simp]:
  "prefetchedRoutes (loginBurst e a s) = prefetchedRoutes s"
  "previousAuthState (loginBurst e a s) = previousAuthState s"
  "pendingLoads (loginBurst e a s) = pendingLoads s"
  "loaderCalls (loginBurst e a s) = loaderCalls s"
  "now (loginBurst e a s) = now s"
  by (simp_all add: loginBurst_def)

lemma adminBurst_fields [simp]:
  "prefetchedRoutes (adminBurst e a location s) = prefetchedRoutes s"
  "previousAuthState (adminBurst e a location s) = previousAuthState s"
  "pendingLoads (adminBurst e a location s) = pendingLoads s"
  "loaderCalls (adminBurst e a location s) = loaderCalls s"
  "now (adminBurst e a location s) = now s"
  by (simp_all add: adminBurst_def)

lemma usePrefetchRoutes_fields [simp]:
  "prefetchedRoutes (usePrefetchRoutes e a location s) = prefetchedRoutes s"
  "pendingLoads (usePrefetchRoutes e a location s) = pendingLoads s"
  "loaderCalls (usePrefetchRoutes e a location s) = loaderCalls s"
  "now (usePrefetchRoutes e a location s) = now s"
  by (simp_all add: usePrefetchRoutes_def)

lemma usePrefetchFromReturnUrl_fields [simp]:
  "prefetchedRoutes (usePrefetchFromReturnUrl e r s) = prefetchedRoutes s"
  "previousAuthState (usePrefetchFromReturnUrl e r s) = previousAuthState s"
  "pendingLoads (usePrefetchFromReturnUrl e r s) = pendingLoads s"
  "loaderCalls (usePrefetchFromReturnUrl e r s) = loaderCalls s"
  "now (usePrefetchFromReturnUrl e r s) = now s"
  by (simp_all add: usePrefetchFromReturnUrl_def split: option.splits)

lemma finish_fields [simp]:
  "prefetchedRoutes (finish r) = prefetchedRoutes (stateOf r)"
  "previousAuthState (finish r) = previousAuthState (stateOf r)"
  "tasks (finish r) = tasks (stateOf r)"
  "pendingLoads (finish r) = pendingLoads (stateOf r)"
  "loaderCalls (finish r) = loaderCalls (stateOf r)"
  "now (finish r) = now (stateOf r)"
  by (cases r; simp add: finish_def)+

lemma fireWave_fields [simp]:
  "prefetchedRoutes (fireWave e routes s) = prefetchedRoutes s"
  "previousAuthState (fireWave e routes s) = previousAuthState s"
  "pendingLoads (fireWave e routes s) = pendingLoads s"
  "loaderCalls (fireWave e routes s) = loaderCalls s"
  "now (fireWave e routes s) = now s"
  "console (fireWave e routes s) = console s"
  by (simp_all add: fireWave_eq)

lemma stateOf_andThen_Returns:
  "stateOf (andThen r (\<lambda>s. Returns (f s))) = (case r of Returns s \<Rightarrow> f s | Throws e s \<Rightarrow> s)"
  by (cases r) (simp_all add: andThen_def)

text \<open>A callback never touches the loaded set, the remembered flag or the clock.\<close>

lemma runCallback_frame:
  "prefetchedRoutes (stateOf (runCallback e cb s)) = prefetchedRoutes s \<and>
   previousAuthState (stateOf (runCallback e cb s)) = previousAuthState s \<and>
   now (stateOf (runCallback e cb s)) = now s"
proof (cases cb)
  case (WaveCallback routes)
  then show ?thesis by simp
next
  case (PrefetchCallback route)
  then show ?thesis by (simp add: prefetchRoute_frame)
next
  case (LoginBurstCallback staff)
  show ?thesis
    using prefetchEach_frame [of "[''/cart'', ''/wishlist'', ''/profile'']" s]
    unfolding LoginBurstCallback runCallback.simps stateOf_andThen_Returns
    by (cases "prefetchEach [''/cart'', ''/wishlist'', ''/profile''] s") auto
next
  case AdminBurstCallback
  then show ?thesis using prefetchEach_frame [of adminRoutes s] by simp
next
  case (ReturnUrlCallback u)
  then show ?thesis by (simp add: prefetchRoute_frame split: option.splits)
qed

text \<open>A callback calls loaders only for routes that are not in the loaded set.\<close>

lemma runCallback_loaderCalls:
  "\<exists>new. loaderCalls (stateOf (runCallback e cb s)) = loaderCalls s @ new \<and>
         set new \<inter> prefetchedRoutes s = {}"
proof (cases cb)
  case (WaveCallback routes)
  then show ?thesis by simp
next
  case (PrefetchCallback route)
  then show ?thesis by (auto simp: prefetchRoute_loaderCalls)
next
  case (LoginBurstCallback staff)
  show ?thesis
    using prefetchEach_loaderCalls [of "[''/cart'', ''/wishlist'', ''/profile'']" s]
    unfolding LoginBurstCallback runCallback.simps stateOf_andThen_Returns
    by (cases "prefetchEach [''/cart'', ''/wishlist'', ''/profile''] s") auto
next
  case AdminBurstCallback
  then show ?thesis using prefetchEach_loaderCalls [of adminRoutes s] by simp
next
  case (ReturnUrlCallback u)
  then show ?thesis by (auto simp: prefetchRoute_loaderCalls split: option.splits)
qed

lemma settle_fields [simp]:
  "prefetchedRoutes (settle route ok s) = (if ok then insert route (prefetchedRoutes s) else prefetchedRoutes s)"
  "previousAuthState (settle route ok s) = previousAuthState s"
  "tasks (settle route ok s) = tasks s"
  "pendingLoads (settle route ok s) = pendingLoads s"
  "loaderCalls (settle route ok s) = loaderCalls s"
  "now (settle route ok s) = now s"
  by (simp_all add: settle_def)

text \<open>The ways a step can be taken.\<close>

lemma step_cases:
  assumes "step e ev s = Some s'"
  obtains
    (render) a location where "ev = Render a location" "s' = usePrefetchRoutes e a location s"
  | (mount) r where "ev = Mount r" "s' = usePrefetchFromReturnUrl e r s"
  | (elapse) d where "ev = Elapse d" "s' = s\<lparr>now := now s + d\<rparr>"
  | (task) i cb where "ev = RunTask i" "i < length (tasks s)"
      "s' = finish (runCallback e cb (s\<lparr>tasks := dropAt i (tasks s)\<rparr>))"
  | (settled) i ok where "ev = SettleLoad i ok" "i < length (pendingLoads s)"
      "s' = settle (pendingLoads s ! i) ok (s\<lparr>pendingLoads := dropAt i (pendingLoads s)\<rparr>)"
  using assms
  by (cases ev) (auto simp: step_def split: if_splits task.splits)

lemma step_prefetchedRoutes:
  assumes "step e ev s = Some s'"
  shows "prefetchedRoutes s' =
           (case ev of
              SettleLoad i ok \<Rightarrow> if ok then insert (pendingLoads s ! i) (prefetchedRoutes s)
                                  else prefetchedRoutes s
            | _ \<Rightarrow> prefetchedRoutes s)"
  using assms
proof (cases rule: step_cases)
  case (task i cb)
  then show ?thesis
    using runCallback_frame [of e cb "s\<lparr>tasks := dropAt i (tasks s)\<rparr>"] by simp
qed simp_all

lemma step_loaderCalls:
  assumes "step e ev s = Some s'"
  shows "\<exists>new. loaderCalls s' = loaderCalls s @ new \<and> set new \<inter> prefetchedRoutes s = {}"
  using assms
proof (cases rule: step_cases)
  case (task i cb)
  then show ?thesis
    using runCallback_loaderCalls [of e cb "s\<lparr>tasks := dropAt i (tasks s)\<rparr>"] by simp
qed simp_all

lemma step_previousAuthState:
  assumes "step e ev s = Some s'"
  shows "previousAuthState s' =
           (case ev of
              Render a location \<Rightarrow>
                if authInitialized a \<and> shouldPrefetch e then Some (isAuthenticated a)
                else previousAuthState s
            | _ \<Rightarrow> previousAuthState s)"
  using assms
proof (cases rule: step_cases)
  case (task i cb)
  then show ?thesis
    using runCallback_frame [of e cb "s\<lparr>tasks := dropAt i (tasks s)\<rparr>"] by simp
next
  case (render a location)
  then show ?thesis by (simp add: usePrefetchRoutes_def)
qed simp_all

lemma step_mono: "step e ev s = Some s' \<Longrightarrow> prefetchedRoutes s \<subseteq> prefetchedRoutes s'"
  by (drule step_prefetchedRoutes) (auto split: event.splits if_splits)

lemma run_mono: "run evs s = Some s' \<Longrightarrow> prefetchedRoutes s \<subseteq> prefetchedRoutes s'"
proof (induction evs arbitrary: s)
  case Nil
  then show ?case by simp
next
  case (Cons x evs)
  obtain e ev where x: "x = (e, ev)" by (cases x)
  from Cons.prems x obtain s1 where s1: "step e ev s = Some s1" "run evs s1 = Some s'"
    by (auto split: option.splits)
  from step_mono [OF s1(1)] Cons.IH [OF s1(2)] show ?case by blast
qed

lemma run_loaderCalls:
  "run evs s = Some s' \<Longrightarrow>
   \<exists>new. loaderCalls s' = loaderCalls s @ new \<and> set new \<inter> prefetchedRoutes s = {}"
proof (induction evs arbitrary: s)
  case Nil
  then show ?case by simp
next
  case (Cons x evs)
  obtain e ev where x: "x = (e, ev)" by (cases x)
  from Cons.prems x obtain s1 where s1: "step e ev s = Some s1" "run evs s1 = Some s'"
    by (auto split: option.splits)
  from step_loaderCalls [OF s1(1)] obtain n1 where
    n1: "loaderCalls s1 = loaderCalls s @ n1" "set n1 \<inter> prefetchedRoutes s = {}" by blast
  from Cons.IH [OF s1(2)] obtain n2 where
    n2: "loaderCalls s' = loaderCalls s1 @ n2" "set n2 \<inter> prefetchedRoutes s1 = {}" by blast
  from step_mono [OF s1(1)] n2(2) have "set n2 \<inter> prefetchedRoutes s = {}" by blast
  with n1 n2 show ?case by (auto intro!: exI [of _ "n1 @ n2"])
qed

lemma shouldPrefetch_iff:
  "shouldPrefetch e \<longleftrightarrow>
     (\<exists>nav. navigator e = Some nav \<and>
        (case selectedConnection nav of
           None \<Rightarrow> True
         | Some c \<Rightarrow> \<not> saveData c \<and> effectiveType c \<noteq> Some ''slow-2g''
                      \<and> effectiveType c \<noteq> Some ''2g''))"
  by (auto simp: shouldPrefetch_def slowConnections_def split: option.splits)

lemma selectedConnection_iff:
  "selectedConnection nav = Some c \<longleftrightarrow>
     connection nav = Some c \<or>
     connection nav = None \<and> mozConnection nav = Some c \<or>
     connection nav = None \<and> mozConnection nav = None \<and> webkitConnection nav = Some c"
  by (auto simp: selectedConnection_def split: option.splits)

lemma shouldPrefetch_plainBrowser [simp]: "shouldPrefetch plainBrowser"
  by (simp add: plainBrowser_def shouldPrefetch_def selectedConnection_def)

lemma shouldPrefetch_dataSaverBrowser [simp]: "\<not> shouldPrefetch dataSaverBrowser"
  by (simp add: dataSaverBrowser_def shouldPrefetch_def selectedConnection_def)

lemma shouldPrefetch_noNavigator [simp]: "\<not> shouldPrefetch noNavigator"
  by (simp add: noNavigator_def shouldPrefetch_def)

lemma waveTimers_append [simp]: "waveTimers (xs @ ys) = waveTimers xs @ waveTimers ys"
  by (induction xs rule: waveTimers.induct) simp_all

lemma waveTimers_deferred [simp]:
  "waveTimers [deferred e time (PrefetchCallback route) opts] = []"
  "waveTimers [deferred e time (LoginBurstCallback staff) opts] = []"
  "waveTimers [deferred e time AdminBurstCallback opts] = []"
  "waveTimers [deferred e time (ReturnUrlCallback u) opts] = []"
  by (simp_all add: deferred_def)

lemma hasStaffRole_iff:
  "hasStaffRole a \<longleftrightarrow>
     (\<exists>u rs. user a = Some u \<and> roles u = Some rs \<and>
             set rs \<inter> {''admin'', ''marketer'', ''consultant''} \<noteq> {})"
  by (auto simp: hasStaffRole_def staffRoles_def list_ex_iff split: option.splits)

lemma sample_auth [simp]:
  "authInitialized anonymous" "\<not> isAuthenticated anonymous" "\<not> hasStaffRole anonymous"
  "authInitialized customer" "isAuthenticated customer" "\<not> hasStaffRole customer"
  "authInitialized marketer" "isAuthenticated marketer" "hasStaffRole marketer"
  by (simp_all add: anonymous_def customer_def marketer_def hasStaffRole_def staffRoles_def)

lemma adminRoutes_registered: "\<forall>r \<in> set adminRoutes. map_of routeComponentMap r \<noteq> None"
  by (simp add: adminRoutes_def routeComponentMap_def)

lemma burstRoutes_registered:
  "\<forall>r \<in> set [''/cart'', ''/wishlist'', ''/profile'']. map_of routeComponentMap r \<noteq> None"
  by (simp add: routeComponentMap_def)

text \<open>A timer does not run before it is due.\<close>

lemma timer_not_before_due:
  "i < length (tasks s) \<Longrightarrow> tasks s ! i = Timeout due cb \<Longrightarrow> now s < due \<Longrightarrow>
   step e (RunTask i) s = None"
  by (simp add: step_def)

lemma usePrefetchRoutes_tasks:
  "authInitialized a \<Longrightarrow> shouldPrefetch e \<Longrightarrow>
   tasks (usePrefetchRoutes e a location s) =
     tasks (scheduleWaves a s) @
     (if previousAuthState s = Some False \<and> isAuthenticated a
      then [deferred e (now s) (LoginBurstCallback (hasStaffRole a)) None] else []) @
     (if isOnAdminPage location \<and> hasStaffRole a \<and> ''/admin'' \<notin> prefetchedRoutes s
      then [deferred e (now s) AdminBurstCallback None] else [])"
  by (simp add: usePrefetchRoutes_def loginBurst_def adminBurst_def)

lemma usePrefetchRoutes_console:
  "authInitialized a \<Longrightarrow> shouldPrefetch e \<Longrightarrow>
   console (usePrefetchRoutes e a location s) =
     console s @
     (if previousAuthState s = Some False \<and> isAuthenticated a then [JustAuthenticated] else []) @
     (if isOnAdminPage location \<and> hasStaffRole a \<and> ''/admin'' \<notin> prefetchedRoutes s
      then [OnAdminPage] else [])"
  by (simp add: usePrefetchRoutes_def loginBurst_def adminBurst_def)

text \<open>
  What every piece of the module does to the three lists: loader calls and console lines
  are only added, and a promise is pending only for a loader that has been called.
\<close>

lemma prefetchRoute_grows:
  "set (loaderCalls s) \<subseteq> set (loaderCalls (stateOf (prefetchRoute route s))) \<and>
   set (console s) \<subseteq> set (console (stateOf (prefetchRoute route s))) \<and>
   set (pendingLoads (stateOf (prefetchRoute route s)))
     \<subseteq> set (pendingLoads s) \<union> set (loaderCalls (stateOf (prefetchRoute route s)))"
  by (auto simp: prefetchRoute_def say_def split: property.splits)

lemma prefetchEach_grows:
  "set (loaderCalls s) \<subseteq> set (loaderCalls (stateOf (prefetchEach routes s))) \<and>
   set (console s) \<subseteq> set (console (stateOf (prefetchEach routes s))) \<and>
   set (pendingLoads (stateOf (prefetchEach routes s)))
     \<subseteq> set (pendingLoads s) \<union> set (loaderCalls (stateOf (prefetchEach routes s)))"
proof (induction routes arbitrary: s)
  case Nil
  show ?case by simp
next
  case (Cons r rs)
  show ?case
  proof (cases "prefetchRoute r s")
    case (Returns s1)
    then have s1: "stateOf (prefetchRoute r s) = s1" by simp
    have e: "prefetchEach (r # rs) s = prefetchEach rs s1"
      using Returns by (simp add: andThen_def)
    from prefetchRoute_grows [of s r] s1 Cons [of s1] show ?thesis
      unfolding e by auto
  next
    case (Throws err s1)
    then have s1: "stateOf (prefetchRoute r s) = s1" by simp
    have e: "stateOf (prefetchEach (r # rs) s) = s1"
      using Throws by (simp add: andThen_def)
    from prefetchRoute_grows [of s r] s1 show ?thesis
      unfolding e by auto
  qed
qed

lemma runCallback_grows:
  "set (loaderCalls s) \<subseteq> set (loaderCalls (stateOf (runCallback e cb s))) \<and>
   set (console s) \<subseteq> set (console (stateOf (runCallback e cb s))) \<and>
   set (pendingLoads (stateOf (runCallback e cb s)))
     \<subseteq> set (pendingLoads s) \<union> set (loaderCalls (stateOf (runCallback e cb s)))"
proof (cases cb)
  case (WaveCallback routes)
  then show ?thesis by simp
next
  case (PrefetchCallback route)
  then show ?thesis using prefetchRoute_grows [of s route] by simp
next
  case (LoginBurstCallback staff)
  show ?thesis
    using prefetchEach_grows [of s "[''/cart'', ''/wishlist'', ''/profile'']"]
    unfolding LoginBurstCallback runCallback.simps stateOf_andThen_Returns
    by (cases "prefetchEach [''/cart'', ''/wishlist'', ''/profile''] s") auto
next
  case AdminBurstCallback
  then show ?thesis using prefetchEach_grows [of s adminRoutes] by simp
next
  case (ReturnUrlCallback u)
  then show ?thesis using prefetchRoute_grows [of s] by (simp split: option.splits)
qed

lemma set_dropAt: "set (dropAt i xs) \<subseteq> set xs"
  by (auto simp: dropAt_def dest: in_set_takeD in_set_dropD)

lemma finish_console: "set (console (stateOf r)) \<subseteq> set (console (finish r))"
  by (cases r) (auto simp: finish_def say_def)

lemma usePrefetchRoutes_console_grows:
  "set (console s) \<subseteq> set (console (usePrefetchRoutes e a location s))"
  by (auto simp: usePrefetchRoutes_def loginBurst_def adminBurst_def)

lemma usePrefetchFromReturnUrl_console_grows:
  "set (console s) \<subseteq> set (console (usePrefetchFromReturnUrl e r s))"
  by (auto simp: usePrefetchFromReturnUrl_def split: option.splits)

lemma step_grows:
  assumes "step e ev s = Some s'"
  shows "set (loaderCalls s) \<subseteq> set (loaderCalls s') \<and>
         set (console s) \<subseteq> set (console s') \<and>
         set (pendingLoads s') \<subseteq> set (pendingLoads s) \<union> set (loaderCalls s')"
  using assms
proof (cases rule: step_cases)
  case (render a location)
  then show ?thesis using usePrefetchRoutes_console_grows [of s e a location] by simp
next
  case (mount r)
  then show ?thesis using usePrefetchFromReturnUrl_console_grows [of s e r] by simp
next
  case (elapse d)
  then show ?thesis by simp
next
  case (task i cb)
  let ?r = "runCallback e cb (s\<lparr>tasks := dropAt i (tasks s)\<rparr>)"
  from runCallback_grows [of "s\<lparr>tasks := dropAt i (tasks s)\<rparr>" e cb] finish_console [of ?r] task
  show ?thesis by auto
next
  case (settled i ok)
  then show ?thesis using set_dropAt [of i "pendingLoads s"] by (auto simp: settle_def say_def)
qed

text \<open>
  The invariant of the event loop: a pending promise belongs to a loader that was called,
  and a route in the loaded set had its loader called and its success logged.
\<close>

lemma step_invariant:
  assumes "step e ev s = Some s'"
    and "set (pendingLoads s) \<subseteq> set (loaderCalls s)"
    and "\<forall>r \<in> prefetchedRoutes s. r \<in> set (loaderCalls s) \<and> Prefetched r \<in> set (console s)"
  shows "set (pendingLoads s') \<subseteq> set (loaderCalls s') \<and>
         (\<forall>r \<in> prefetchedRoutes s'. r \<in> set (loaderCalls s') \<and> Prefetched r \<in> set (console s'))"
proof -
  note g = step_grows [OF assms(1)]
  from g assms(2) have p: "set (pendingLoads s') \<subseteq> set (loaderCalls s')" by blast
  have "r \<in> set (loaderCalls s') \<and> Prefetched r \<in> set (console s')" if r: "r \<in> prefetchedRoutes s'" for r
  proof (cases "r \<in> prefetchedRoutes s")
    case True
    with assms(3) g show ?thesis by blast
  next
    case False
    with r step_prefetchedRoutes [OF assms(1)] obtain i where
      i: "ev = SettleLoad i True" "r = pendingLoads s ! i"
      by (cases ev) (auto split: if_splits)
    with assms(1) have il: "i < length (pendingLoads s)"
      and s': "s' = settle r True (s\<lparr>pendingLoads := dropAt i (pendingLoads s)\<rparr>)"
      by (auto simp: step_def split: if_splits)
    from il i have "r \<in> set (pendingLoads s)" by simp
    with assms(2) g have "r \<in> set (loaderCalls s')" by blast
    moreover from s' have "Prefetched r \<in> set (console s')"
      by (simp add: settle_def say_def)
    ultimately show ?thesis by simp
  qed
  with p show ?thesis by blast
qed

lemma run_invariant:
  "run evs s = Some s' \<Longrightarrow>
   set (pendingLoads s) \<subseteq> set (loaderCalls s) \<Longrightarrow>
   \<forall>r \<in> prefetchedRoutes s. r \<in> set (loaderCalls s) \<and> Prefetched r \<in> set (console s) \<Longrightarrow>
   set (pendingLoads s') \<subseteq> set (loaderCalls s') \<and>
   (\<forall>r \<in> prefetchedRoutes s'. r \<in> set (loaderCalls s') \<and> Prefetched r \<in> set (console s'))"
proof (induction evs arbitrary: s)
  case Nil
  then show ?case by simp
next
  case (Cons x evs)
  obtain e ev where x: "x = (e, ev)" by (cases x)
  from Cons.prems(1) x obtain s1 where s1: "step e ev s = Some s1" "run evs s1 = Some s'"
    by (auto split: option.splits)
  from step_invariant [OF s1(1) Cons.prems(2) Cons.prems(3)]
  have "set (pendingLoads s1) \<subseteq> set (loaderCalls s1)"
    "\<forall>r \<in> prefetchedRoutes s1. r \<in> set (loaderCalls s1) \<and> Prefetched r \<in> set (console s1)"
    by blast+
  from Cons.IH [OF s1(2) this] show ?case .
qed

lemma startsWith_iff: "startsWith s p \<longleftrightarrow> (\<exists>t. s = p @ t)"
  unfolding startsWith_def
  by (metis append_eq_conv_conj append_take_drop_id)

lemma takeWhile_twice: "takeWhile P (takeWhile Q xs) = takeWhile (\<lambda>x. Q x \<and> P x) xs"
  by (induction xs) auto

lemma normalizedUrl_eq:
  "normalizedUrl u = takeWhile (\<lambda>c. c \<noteq> CHR ''?'' \<and> c \<noteq> CHR ''#'') u"
  by (simp add: normalizedUrl_def hd_js_split takeWhile_twice)

lemma normalizedUrl_stops:
  assumes "CHR ''?'' \<notin> set p" and "CHR ''#'' \<notin> set p"
    and "sep = CHR ''?'' \<or> sep = CHR ''#''"
  shows "normalizedUrl (p @ sep # rest) = p"
proof -
  have keep: "x \<noteq> CHR ''?'' \<and> x \<noteq> CHR ''#''" if "x \<in> set p" for x
    using that assms(1,2) by blast
  have "takeWhile (\<lambda>c. c \<noteq> CHR ''?'' \<and> c \<noteq> CHR ''#'') (p @ sep # rest) =
        p @ takeWhile (\<lambda>c. c \<noteq> CHR ''?'' \<and> c \<noteq> CHR ''#'') (sep # rest)"
    by (rule takeWhile_append2) (rule keep)
  also have "\<dots> = p"
    using assms(3) by auto
  finally show ?thesis by (simp only: normalizedUrl_eq)
qed

lemma normalizedUrl_whole:
  assumes "CHR ''?'' \<notin> set p" and "CHR ''#'' \<notin> set p"
  shows "normalizedUrl p = p"
proof -
  have "x \<noteq> CHR ''?'' \<and> x \<noteq> CHR ''#''" if "x \<in> set p" for x
    using that assms by blast
  then show ?thesis
    unfolding normalizedUrl_eq by (simp only: takeWhile_eq_all_conv) blast
qed

lemma returnUrlRoute_admin_segment:
  assumes "normalizedUrl u = ''/admin/'' @ seg" and "CHR ''/'' \<notin> set seg"
  shows "returnUrlRoute u = Some (''/admin/'' @ seg)"
proof -
  have "js_split CHR ''/'' (''/admin/'' @ seg) = [[], ''admin'', seg]"
    using js_split_no_separator [OF assms(2)] by simp
  then show ?thesis
    using assms(1) by (simp add: returnUrlRoute_def startsWith_def)
qed

lemma returnUrlRoute_slash: "returnUrlRoute u = Some route \<Longrightarrow> startsWith route ''/''"
proof -
  assume "returnUrlRoute u = Some route"
  then have "\<exists>t. route = ''/'' @ t"
    by (auto simp: returnUrlRoute_def Let_def split: if_splits)
  then show ?thesis by (simp add: startsWith_iff)
qed

lemma prefetchRoute_slash:
  assumes "startsWith route ''/''"
  shows "\<exists>s1. prefetchRoute route s = Returns s1"
proof -
  from assms have "getProperty route \<noteq> Inherited"
    using slash_not_inherited by (simp add: getProperty_Inherited)
  then show ?thesis
    by (cases "getProperty route") (simp_all add: prefetchRoute_def)
qed

subsection \<open>The routes the hooks pass\<close>

text \<open>
  The two hooks pass only paths to \<open>prefetchRoute\<close>: the literals of the waves and
  bursts, all of them in the table, and what the return-URL callback builds, which starts
  with \<open>/\<close>. No inherited name starts with \<open>/\<close>.
\<close>

lemma taskCallback_deferred [simp]: "taskCallback (deferred e time cb opts) = cb"
  by (simp add: deferred_def)

lemma pathsOnly_usePrefetchRoutes:
  "pathsOnly s \<Longrightarrow> pathsOnly (usePrefetchRoutes e a location s)"
  by (simp add: pathsOnly_def usePrefetchRoutes_def scheduleWaves_def loginBurst_def
      adminBurst_def Let_def adminRoutes_def startsWith_def)

lemma pathsOnly_usePrefetchFromReturnUrl:
  "pathsOnly s \<Longrightarrow> pathsOnly (usePrefetchFromReturnUrl e r s)"
  by (simp add: pathsOnly_def usePrefetchFromReturnUrl_def split: option.splits)

lemma runCallback_Returns:
  assumes "list_all (\<lambda>route. startsWith route ''/'') (callbackRoutes cb)"
  shows "\<exists>s1. runCallback e cb s = Returns s1"
proof (cases cb)
  case (WaveCallback routes)
  then show ?thesis by simp
next
  case (PrefetchCallback route)
  with assms show ?thesis using prefetchRoute_slash [of route s] by simp
next
  case (LoginBurstCallback staff)
  show ?thesis
    unfolding LoginBurstCallback runCallback.simps
      prefetchEach_registered [OF burstRoutes_registered]
    by (simp add: andThen_def)
next
  case AdminBurstCallback
  show ?thesis
    unfolding AdminBurstCallback runCallback.simps
      prefetchEach_registered [OF adminRoutes_registered]
    by simp
next
  case (ReturnUrlCallback u)
  show ?thesis
  proof (cases "returnUrlRoute u")
    case None
    with ReturnUrlCallback show ?thesis by simp
  next
    case (Some route)
    with ReturnUrlCallback prefetchRoute_slash [OF returnUrlRoute_slash [OF Some], of s]
    show ?thesis by simp
  qed
qed

lemma runCallback_tasks:
  "tasks (stateOf (runCallback e cb s)) =
     tasks s @
     (case cb of
        WaveCallback routes \<Rightarrow>
          if shouldPrefetch e
          then map (\<lambda>route. deferred e (now s) (PrefetchCallback route) (Some 2000)) routes
          else []
      | LoginBurstCallback staff \<Rightarrow>
          (case prefetchEach [''/cart'', ''/wishlist'', ''/profile''] s of
             Returns s1 \<Rightarrow> if staff then [Timeout (now s + 1000) (WaveCallback adminRoutes)] else []
           | Throws err s1 \<Rightarrow> [])
      | _ \<Rightarrow> [])"
proof (cases cb)
  case (WaveCallback routes)
  then show ?thesis by (simp add: fireWave_eq)
next
  case (PrefetchCallback route)
  then show ?thesis by (simp add: prefetchRoute_frame)
next
  case (LoginBurstCallback staff)
  show ?thesis
    using prefetchEach_frame [of "[''/cart'', ''/wishlist'', ''/profile'']" s]
    unfolding LoginBurstCallback runCallback.simps stateOf_andThen_Returns
    by (cases "prefetchEach [''/cart'', ''/wishlist'', ''/profile''] s") auto
next
  case AdminBurstCallback
  then show ?thesis using prefetchEach_frame [of adminRoutes s] by simp
next
  case (ReturnUrlCallback u)
  then show ?thesis by (simp add: prefetchRoute_frame split: option.splits)
qed

lemma pathsOnly_runCallback:
  assumes "pathsOnly s" and "list_all (\<lambda>route. startsWith route ''/'') (callbackRoutes cb)"
  shows "pathsOnly (stateOf (runCallback e cb s))"
proof -
  have admin: "list_all (\<lambda>route. startsWith route ''/'') adminRoutes"
    by (simp add: adminRoutes_def startsWith_def)
  show ?thesis
    using assms admin unfolding pathsOnly_def runCallback_tasks
    by (cases cb) (auto simp: list_all_iff split: outcome.splits)
qed

lemma pathsOnly_dropAt:
  "pathsOnly s \<Longrightarrow> pathsOnly (s\<lparr>tasks := dropAt i (tasks s)\<rparr>)"
  using set_dropAt [of i "tasks s"] by (auto simp: pathsOnly_def list_all_iff)

lemma pathsOnly_nth:
  "pathsOnly s \<Longrightarrow> i < length (tasks s) \<Longrightarrow>
   list_all (\<lambda>route. startsWith route ''/'') (callbackRoutes (taskCallback (tasks s ! i)))"
  by (simp add: pathsOnly_def list_all_length)

text \<open>
  The routes of waiting callbacks are paths, and a callback with paths returns: no step
  reports an uncaught exception.
\<close>

lemma step_no_exception:
  assumes "step e ev s = Some s'" and "pathsOnly s"
    and "\<not> list_ex isUncaught (console s)"
  shows "pathsOnly s' \<and> \<not> list_ex isUncaught (console s')"
proof (cases ev)
  case (Render a location)
  with assms(1) have s': "s' = usePrefetchRoutes e a location s"
    by (simp add: step_def)
  have "\<not> list_ex isUncaught (console (usePrefetchRoutes e a location s))"
  proof (cases "authInitialized a \<and> shouldPrefetch e")
    case True
    with assms(3) show ?thesis by (simp add: usePrefetchRoutes_console)
  next
    case False
    with assms(3) show ?thesis by (auto simp: usePrefetchRoutes_def)
  qed
  with s' pathsOnly_usePrefetchRoutes [OF assms(2)] show ?thesis by simp
next
  case (Mount r)
  with assms(1) have s': "s' = usePrefetchFromReturnUrl e r s"
    by (simp add: step_def)
  have "\<not> list_ex isUncaught (console (usePrefetchFromReturnUrl e r s))"
    using assms(3) by (simp add: usePrefetchFromReturnUrl_def split: option.splits)
  with s' pathsOnly_usePrefetchFromReturnUrl [OF assms(2)] show ?thesis by simp
next
  case (RunTask i)
  with assms(1) have i: "i < length (tasks s)"
    by (auto simp: step_def split: if_splits)
  let ?cb = "taskCallback (tasks s ! i)"
  let ?s0 = "s\<lparr>tasks := dropAt i (tasks s)\<rparr>"
  from assms(1) RunTask i have s': "s' = finish (runCallback e ?cb ?s0)"
    by (cases "tasks s ! i") (auto simp: step_def split: if_splits)
  from pathsOnly_nth [OF assms(2) i] have cb: "list_all (\<lambda>route. startsWith route ''/'') (callbackRoutes ?cb)" .
  from runCallback_Returns [OF cb, of e ?s0] obtain s1 where s1: "runCallback e ?cb ?s0 = Returns s1"
    by blast
  with s' have eq: "s' = s1" by (simp add: finish_def)
  have "pathsOnly ?s0" using assms(2) by (rule pathsOnly_dropAt)
  from pathsOnly_runCallback [OF this cb, of e] s1 eq
  have p: "pathsOnly s'" by simp
  have "console s1 = console ?s0 \<or> (\<exists>m. console s1 = console ?s0 @ [m] \<and> \<not> isUncaught m)"
  proof (cases ?cb)
    case (WaveCallback routes)
    with s1 show ?thesis by auto
  next
    case (PrefetchCallback route)
    with s1 show ?thesis
      by (auto simp: prefetchRoute_def say_def split: if_splits property.splits)
  next
    case (LoginBurstCallback staff)
    from s1 show ?thesis
      unfolding LoginBurstCallback runCallback.simps
        prefetchEach_registered [OF burstRoutes_registered]
      by (auto simp: andThen_def prefetchWithDelay_def say_def split: if_splits)
  next
    case AdminBurstCallback
    from s1 show ?thesis
      unfolding AdminBurstCallback runCallback.simps
        prefetchEach_registered [OF adminRoutes_registered]
      by auto
  next
    case (ReturnUrlCallback u)
    with s1 show ?thesis
      by (auto simp: prefetchRoute_def say_def split: if_splits property.splits option.splits)
  qed
  with assms(3) eq have "\<not> list_ex isUncaught (console s')" by auto
  with p show ?thesis by simp
next
  case (SettleLoad i ok)
  with assms show ?thesis
    by (auto simp: step_def settle_def say_def pathsOnly_def split: if_splits)
next
  case (Elapse d)
  with assms show ?thesis
    by (auto simp: step_def pathsOnly_def)
qed

lemma run_no_exception:
  "run evs s = Some s' \<Longrightarrow> pathsOnly s \<Longrightarrow> \<not> list_ex isUncaught (console s) \<Longrightarrow>
   pathsOnly s' \<and> \<not> list_ex isUncaught (console s')"
proof (induction evs arbitrary: s)
  case Nil
  then show ?case by simp
next
  case (Cons x evs)
  obtain e ev where x: "x = (e, ev)" by (cases x)
  from Cons.prems(1) x obtain s1 where s1: "step e ev s = Some s1" "run evs s1 = Some s'"
    by (auto split: option.splits)
  from step_no_exception [OF s1(1) Cons.prems(2) Cons.prems(3)]
  have "pathsOnly s1" "\<not> list_ex isUncaught (console s1)" by simp_all
  from Cons.IH [OF s1(2) this] show ?case .
qed

text \<open>
  So the inherited names cannot be reached through the two hooks: from the initial state
  no run of the event loop ever reports an uncaught exception, and every route that a
  waiting callback will call \<open>prefetchRoute\<close> with is a path.
\<close>

lemma hooks_never_throw:
  "run evs initialState = Some s \<Longrightarrow> \<not> list_ex isUncaught (console s)"
  using run_no_exception [of evs initialState s]
  by (simp add: pathsOnly_def initialState_def)

lemma andThen_Returns [simp]: "andThen r Returns = r"
  by (cases r) (simp_all add: andThen_def)

lemma prefetchEach_Nil: "prefetchEach [] = Returns"
  by (rule ext) simp

lemma runCallback_requests:
  "runCallback e (PrefetchCallback route) s = prefetchEach (requestedRoutes (PrefetchCallback route)) s"
  "runCallback e AdminBurstCallback s = prefetchEach (requestedRoutes AdminBurstCallback) s"
  "runCallback e (ReturnUrlCallback u) s = prefetchEach (requestedRoutes (ReturnUrlCallback u)) s"
  "runCallback e (LoginBurstCallback staff) s =
     andThen (prefetchEach (requestedRoutes (LoginBurstCallback staff)) s)
       (\<lambda>s'. Returns (if staff then prefetchWithDelay adminRoutes 1000 (say StaffUserDetected s')
                       else s'))"
  by (simp_all add: prefetchEach_Nil split: option.splits)

lemma requestedRoutes_paths:
  assumes "list_all (\<lambda>route. startsWith route ''/'') (callbackRoutes cb)"
  shows "list_all (\<lambda>route. startsWith route ''/'') (requestedRoutes cb)"
proof (cases cb)
  case (ReturnUrlCallback u)
  then show ?thesis
    by (auto dest: returnUrlRoute_slash split: option.splits)
qed (use assms in \<open>simp_all add: adminRoutes_def startsWith_def\<close>)

lemma requested_routes_are_paths:
  assumes "run evs initialState = Some s" and "t \<in> set (tasks s)"
    and "route \<in> set (requestedRoutes (taskCallback t))"
  shows "startsWith route ''/''"
proof -
  have "pathsOnly s"
    using run_no_exception [of evs initialState s] assms(1)
    by (simp add: pathsOnly_def initialState_def)
  with assms(2) have "list_all (\<lambda>route. startsWith route ''/'') (callbackRoutes (taskCallback t))"
    by (simp add: pathsOnly_def list_all_iff)
  from requestedRoutes_paths [OF this] assms(3) show ?thesis
    by (simp add: list_all_iff)
qed

text \<open>
  What one call of \<open>prefetchRoute\<close> does, for any string that is not an inherited name,
  with the two ways the promise of the loader can settle.
\<close>

lemma prefetchRoute_cases:
  "(route \<in> prefetchedRoutes s \<longrightarrow> prefetchRoute route s = Returns s) \<and>
   (route \<notin> prefetchedRoutes s \<and> map_of routeComponentMap route = None
      \<and> route \<notin> set objectPrototypeKeys \<longrightarrow>
      prefetchRoute route s = Returns (s\<lparr>console := console s @ [NoLoaderFound route]\<rparr>)) \<and>
   (route \<notin> prefetchedRoutes s \<and> map_of routeComponentMap route \<noteq> None \<longrightarrow>
      prefetchRoute route s =
        Returns (s\<lparr>loaderCalls := loaderCalls s @ [route],
                  pendingLoads := pendingLoads s @ [route]\<rparr>) \<and>
      step e (SettleLoad (length (pendingLoads s)) True)
          (s\<lparr>loaderCalls := loaderCalls s @ [route], pendingLoads := pendingLoads s @ [route]\<rparr>) =
        Some (s\<lparr>loaderCalls := loaderCalls s @ [route],
               prefetchedRoutes := insert route (prefetchedRoutes s),
               console := console s @ [Prefetched route]\<rparr>) \<and>
      step e (SettleLoad (length (pendingLoads s)) False)
          (s\<lparr>loaderCalls := loaderCalls s @ [route], pendingLoads := pendingLoads s @ [route]\<rparr>) =
        Some (s\<lparr>loaderCalls := loaderCalls s @ [route],
               console := console s @ [FailedToPrefetch route]\<rparr>) \<and>
      prefetchRoute route
          (s\<lparr>loaderCalls := loaderCalls s @ [route],
             console := console s @ [FailedToPrefetch route]\<rparr>) =
        Returns (s\<lparr>loaderCalls := loaderCalls s @ [route, route],
                  pendingLoads := pendingLoads s @ [route],
                  console := console s @ [FailedToPrefetch route]\<rparr>))"
proof (intro conjI impI)
  assume "route \<in> prefetchedRoutes s"
  then show "prefetchRoute route s = Returns s"
    by (simp add: prefetchRoute_def)
next
  assume "route \<notin> prefetchedRoutes s \<and> map_of routeComponentMap route = None
      \<and> route \<notin> set objectPrototypeKeys"
  then show "prefetchRoute route s = Returns (s\<lparr>console := console s @ [NoLoaderFound route]\<rparr>)"
    by (simp add: prefetchRoute_def getProperty_def say_def)
next
  assume a: "route \<notin> prefetchedRoutes s \<and> map_of routeComponentMap route \<noteq> None"
  then obtain m where m: "getProperty route = Loader m"
    by (auto simp: getProperty_def)
  let ?s1 = "s\<lparr>loaderCalls := loaderCalls s @ [route], pendingLoads := pendingLoads s @ [route]\<rparr>"
  show "prefetchRoute route s = Returns ?s1"
    using a m by (simp add: prefetchRoute_def)
  show "step e (SettleLoad (length (pendingLoads s)) True) ?s1 =
        Some (s\<lparr>loaderCalls := loaderCalls s @ [route],
               prefetchedRoutes := insert route (prefetchedRoutes s),
               console := console s @ [Prefetched route]\<rparr>)"
    by (simp add: step_def settle_def say_def dropAt_def)
  show "step e (SettleLoad (length (pendingLoads s)) False) ?s1 =
        Some (s\<lparr>loaderCalls := loaderCalls s @ [route],
               console := console s @ [FailedToPrefetch route]\<rparr>)"
    by (simp add: step_def settle_def say_def dropAt_def)
  show "prefetchRoute route
          (s\<lparr>loaderCalls := loaderCalls s @ [route],
             console := console s @ [FailedToPrefetch route]\<rparr>) =
        Returns (s\<lparr>loaderCalls := loaderCalls s @ [route, route],
                  pendingLoads := pendingLoads s @ [route],
                  console := console s @ [FailedToPrefetch route]\<rparr>)"
    using a m by (simp add: prefetchRoute_def)
qed

text \<open>
  A string that is no path can be an inherited name: for \<open>constructor\<close> the property read
  finds the \<open>Object\<close> function and the call throws.
\<close>

lemma prefetchRoute_inherited_name:
  "prefetchRoute ''constructor'' initialState = Throws ''TypeError'' initialState"
  by (simp add: prefetchRoute_def getProperty_def routeComponentMap_def objectPrototypeKeys_def
      initialState_def)

section \<open>The per-route request procedure\<close>

text \<open>
  Claim C1. The route strings that \<open>prefetchRoute\<close> is called with are paths: every one of
  them starts with \<open>/\<close> (\<open>requested_routes_are_paths\<close>). For every such route string
  \<open>prefetchRoute\<close> does one of three things. A route in the loaded set: nothing at all.
  A route with no loader in the table: one warning on the console, no loader call,
  everything else as it was. A route with a loader in the table: the loader is called and
  its promise is pending; when the promise is fulfilled the route is put into the loaded
  set and the success is logged; when it is rejected the failure is logged and nothing
  else changes, so that the next request for the route calls the loader again.
\<close>

theorem prefetchRoute_behaviour:
  "startsWith route ''/'' \<Longrightarrow>
   (route \<in> prefetchedRoutes s \<longrightarrow> prefetchRoute route s = Returns s) \<and>
   (route \<notin> prefetchedRoutes s \<and> map_of routeComponentMap route = None \<longrightarrow>
      prefetchRoute route s = Returns (s\<lparr>console := console s @ [NoLoaderFound route]\<rparr>)) \<and>
   (route \<notin> prefetchedRoutes s \<and> map_of routeComponentMap route \<noteq> None \<longrightarrow>
      prefetchRoute route s =
        Returns (s\<lparr>loaderCalls := loaderCalls s @ [route],
                  pendingLoads := pendingLoads s @ [route]\<rparr>) \<and>
      step e (SettleLoad (length (pendingLoads s)) True)
          (s\<lparr>loaderCalls := loaderCalls s @ [route], pendingLoads := pendingLoads s @ [route]\<rparr>) =
        Some (s\<lparr>loaderCalls := loaderCalls s @ [route],
               prefetchedRoutes := insert route (prefetchedRoutes s),
               console := console s @ [Prefetched route]\<rparr>) \<and>
      step e (SettleLoad (length (pendingLoads s)) False)
          (s\<lparr>loaderCalls := loaderCalls s @ [route], pendingLoads := pendingLoads s @ [route]\<rparr>) =
        Some (s\<lparr>loaderCalls := loaderCalls s @ [route],
               console := console s @ [FailedToPrefetch route]\<rparr>) \<and>
      prefetchRoute route
          (s\<lparr>loaderCalls := loaderCalls s @ [route],
             console := console s @ [FailedToPrefetch route]\<rparr>) =
        Returns (s\<lparr>loaderCalls := loaderCalls s @ [route, route],
                  pendingLoads := pendingLoads s @ [route],
                  console := console s @ [FailedToPrefetch route]\<rparr>))"
proof -
  assume "startsWith route ''/''"
  then have path: "route \<notin> set objectPrototypeKeys"
    by (rule slash_not_inherited)
  note cases = prefetchRoute_cases [of route s e]
  from cases have loaded: "route \<in> prefetchedRoutes s \<longrightarrow> prefetchRoute route s = Returns s"
    by (rule conjunct1)
  from cases path have unknown:
    "route \<notin> prefetchedRoutes s \<and> map_of routeComponentMap route = None \<longrightarrow>
      prefetchRoute route s = Returns (s\<lparr>console := console s @ [NoLoaderFound route]\<rparr>)"
    by blast
  from cases have known:
    "route \<notin> prefetchedRoutes s \<and> map_of routeComponentMap route \<noteq> None \<longrightarrow>
      prefetchRoute route s =
        Returns (s\<lparr>loaderCalls := loaderCalls s @ [route],
                  pendingLoads := pendingLoads s @ [route]\<rparr>) \<and>
      step e (SettleLoad (length (pendingLoads s)) True)
          (s\<lparr>loaderCalls := loaderCalls s @ [route], pendingLoads := pendingLoads s @ [route]\<rparr>) =
        Some (s\<lparr>loaderCalls := loaderCalls s @ [route],
               prefetchedRoutes := insert route (prefetchedRoutes s),
               console := console s @ [Prefetched route]\<rparr>) \<and>
      step e (SettleLoad (length (pendingLoads s)) False)
          (s\<lparr>loaderCalls := loaderCalls s @ [route], pendingLoads := pendingLoads s @ [route]\<rparr>) =
        Some (s\<lparr>loaderCalls := loaderCalls s @ [route],
               console := console s @ [FailedToPrefetch route]\<rparr>) \<and>
      prefetchRoute route
          (s\<lparr>loaderCalls := loaderCalls s @ [route],
             console := console s @ [FailedToPrefetch route]\<rparr>) =
        Returns (s\<lparr>loaderCalls := loaderCalls s @ [route, route],
                  pendingLoads := pendingLoads s @ [route],
                  console := console s @ [FailedToPrefetch route]\<rparr>)"
    by (rule conjunct2 [THEN conjunct2])
  from loaded unknown known show ?thesis by (intro conjI)
qed

text \<open>
  The three kinds of route at concrete inputs: \<open>/cart\<close> already loaded, the unknown route
  \<open>/nowhere\<close>, and \<open>/cart\<close> on a fresh state with its promise fulfilled and rejected.
\<close>

theorem prefetchRoute_behaviour_witness:
  "prefetchRoute ''/cart'' (initialState\<lparr>prefetchedRoutes := {''/cart''}\<rparr>) =
     Returns (initialState\<lparr>prefetchedRoutes := {''/cart''}\<rparr>) \<and>
   prefetchRoute ''/nowhere'' initialState =
     Returns (initialState\<lparr>console := [NoLoaderFound ''/nowhere'']\<rparr>) \<and>
   prefetchRoute ''/cart'' initialState =
     Returns (initialState\<lparr>loaderCalls := [''/cart''], pendingLoads := [''/cart'']\<rparr>) \<and>
   step \<lparr>navigator = None, hasRequestIdleCallback = True\<rparr> (SettleLoad 0 True)
       (initialState\<lparr>loaderCalls := [''/cart''], pendingLoads := [''/cart'']\<rparr>) =
     Some (initialState\<lparr>loaderCalls := [''/cart''], prefetchedRoutes := {''/cart''},
             console := [Prefetched ''/cart'']\<rparr>) \<and>
   step \<lparr>navigator = None, hasRequestIdleCallback = True\<rparr> (SettleLoad 0 False)
       (initialState\<lparr>loaderCalls := [''/cart''], pendingLoads := [''/cart'']\<rparr>) =
     Some (initialState\<lparr>loaderCalls := [''/cart''], console := [FailedToPrefetch ''/cart'']\<rparr>)"
proof -
  have paths: "startsWith ''/cart'' ''/''" "startsWith ''/nowhere'' ''/''"
    by (simp_all add: startsWith_def)
  have loaded: "''/cart'' \<in> prefetchedRoutes (initialState\<lparr>prefetchedRoutes := {''/cart''}\<rparr>)"
    by simp
  have unknown: "''/nowhere'' \<notin> prefetchedRoutes initialState \<and>
      map_of routeComponentMap ''/nowhere'' = None"
    by (simp add: initialState_def routeComponentMap_def)
  have known: "''/cart'' \<notin> prefetchedRoutes initialState \<and>
      map_of routeComponentMap ''/cart'' \<noteq> None"
    by (simp add: initialState_def routeComponentMap_def)
  have fields: "pendingLoads initialState = []" "loaderCalls initialState = []"
    "console initialState = []" "prefetchedRoutes initialState = {}"
    by (simp_all add: initialState_def)
  show ?thesis
    using prefetchRoute_behaviour [OF paths(1), of "initialState\<lparr>prefetchedRoutes := {''/cart''}\<rparr>"]
      prefetchRoute_behaviour [OF paths(2), of initialState]
      prefetchRoute_behaviour [OF paths(1), of initialState
        "\<lparr>navigator = None, hasRequestIdleCallback = True\<rparr>"]
      loaded unknown known
    by (simp add: fields)
qed

text \<open>
  Claim C2, as the code has it. For a route with a loader in the table that is not loaded
  yet: a request, the fulfilment of the promise of that request, and a second request
  make exactly one loader call, and the second request changes nothing. In general a
  request for a route in the loaded set does nothing, and whatever the event loop does
  from a state where the route is in the loaded set, the route stays there and its loader
  is not called again.
\<close>

theorem prefetchRoute_idempotent_once_settled:
  "(map_of routeComponentMap route \<noteq> None \<and> route \<notin> prefetchedRoutes s \<longrightarrow>
      (\<exists>s1 s2. prefetchRoute route s = Returns s1 \<and>
               step e (SettleLoad (length (pendingLoads s)) True) s1 = Some s2 \<and>
               prefetchRoute route s2 = Returns s2 \<and>
               loaderCalls s2 = loaderCalls s @ [route])) \<and>
   (route \<in> prefetchedRoutes s \<longrightarrow> prefetchRoute route s = Returns s) \<and>
   (route \<in> prefetchedRoutes s \<and> run evs s = Some s' \<longrightarrow>
      route \<in> prefetchedRoutes s' \<and>
      count_list (loaderCalls s') route = count_list (loaderCalls s) route)"
proof (intro conjI impI)
  assume a: "map_of routeComponentMap route \<noteq> None \<and> route \<notin> prefetchedRoutes s"
  then obtain m where m: "getProperty route = Loader m"
    by (auto simp: getProperty_def)
  let ?s1 = "s\<lparr>loaderCalls := loaderCalls s @ [route], pendingLoads := pendingLoads s @ [route]\<rparr>"
  let ?s2 = "s\<lparr>loaderCalls := loaderCalls s @ [route],
               prefetchedRoutes := insert route (prefetchedRoutes s),
               console := console s @ [Prefetched route]\<rparr>"
  have 1: "prefetchRoute route s = Returns ?s1"
    using a m by (simp add: prefetchRoute_def)
  have 2: "step e (SettleLoad (length (pendingLoads s)) True) ?s1 = Some ?s2"
    by (simp add: step_def settle_def say_def dropAt_def)
  have 3: "prefetchRoute route ?s2 = Returns ?s2"
    by (simp add: prefetchRoute_def)
  have 4: "loaderCalls ?s2 = loaderCalls s @ [route]"
    by simp
  from 1 2 3 4
  show "\<exists>s1 s2. prefetchRoute route s = Returns s1 \<and>
               step e (SettleLoad (length (pendingLoads s)) True) s1 = Some s2 \<and>
               prefetchRoute route s2 = Returns s2 \<and>
               loaderCalls s2 = loaderCalls s @ [route]"
    by blast
next
  assume "route \<in> prefetchedRoutes s"
  then show "prefetchRoute route s = Returns s"
    by (simp add: prefetchRoute_def)
next
  assume a: "route \<in> prefetchedRoutes s \<and> run evs s = Some s'"
  with run_mono [of evs s s'] show "route \<in> prefetchedRoutes s'" by blast
  from a run_loaderCalls [of evs s s'] obtain new where
    new: "loaderCalls s' = loaderCalls s @ new" "set new \<inter> prefetchedRoutes s = {}" by blast
  with a have "route \<notin> set new" by blast
  then have "count_list new route = 0" by simp
  with new show "count_list (loaderCalls s') route = count_list (loaderCalls s) route"
    by simp
qed

text \<open>
  The route \<open>/cart\<close>: requested on a fresh state, fulfilled, requested again; and an idle
  request for it that runs when it is loaded already.
\<close>

theorem prefetchRoute_idempotent_once_settled_witness:
  "(\<exists>s1 s2. prefetchRoute ''/cart'' initialState = Returns s1 \<and>
            step plainBrowser (SettleLoad 0 True) s1 = Some s2 \<and>
            prefetchRoute ''/cart'' s2 = Returns s2 \<and>
            loaderCalls s2 = [''/cart'']) \<and>
   prefetchRoute ''/cart'' (initialState\<lparr>prefetchedRoutes := {''/cart''}\<rparr>) =
     Returns (initialState\<lparr>prefetchedRoutes := {''/cart''}\<rparr>) \<and>
   count_list (loaderCalls (the (run [(plainBrowser, RunTask 0)]
       (initialState\<lparr>prefetchedRoutes := {''/cart''},
          tasks := [IdleRequest (PrefetchCallback ''/cart'') (Some 2000)]\<rparr>)))) ''/cart'' = 0"
proof -
  let ?loaded = "initialState\<lparr>prefetchedRoutes := {''/cart''}\<rparr>"
  let ?queued = "initialState\<lparr>prefetchedRoutes := {''/cart''},
          tasks := [IdleRequest (PrefetchCallback ''/cart'') (Some 2000)]\<rparr>"
  have known: "map_of routeComponentMap ''/cart'' \<noteq> None \<and> ''/cart'' \<notin> prefetchedRoutes initialState"
    by (simp add: initialState_def routeComponentMap_def)
  have fields: "pendingLoads initialState = []" "loaderCalls initialState = []"
    by (simp_all add: initialState_def)
  have loaded: "''/cart'' \<in> prefetchedRoutes ?loaded" by simp
  have r: "run [(plainBrowser, RunTask 0)] ?queued = Some (?queued\<lparr>tasks := []\<rparr>)"
    by (simp add: step_def dropAt_def finish_def prefetchRoute_def)
  have q: "''/cart'' \<in> prefetchedRoutes ?queued \<and>
      run [(plainBrowser, RunTask 0)] ?queued = Some (?queued\<lparr>tasks := []\<rparr>)"
    using r by simp
  have c: "count_list (loaderCalls ?queued) ''/cart'' = 0"
    by (simp add: initialState_def)
  from prefetchRoute_idempotent_once_settled [of "''/cart''" initialState plainBrowser]
    prefetchRoute_idempotent_once_settled [of "''/cart''" ?loaded]
    prefetchRoute_idempotent_once_settled [of "''/cart''" ?queued plainBrowser
      "[(plainBrowser, RunTask 0)]" "?queued\<lparr>tasks := []\<rparr>"]
    known loaded q c
  show ?thesis by (simp add: fields)
qed

text \<open>
  Two requests in succession, the second before the promise of the first has settled:
  the loaded set is still empty at the second request, so the loader is called twice.
\<close>

theorem prefetchRoute_twice_counterexample:
  "map_of routeComponentMap ''/cart'' = Some ''@/pages/cart-page'' \<and>
   andThen (prefetchRoute ''/cart'' initialState) (prefetchRoute ''/cart'') =
     Returns (initialState\<lparr>loaderCalls := [''/cart'', ''/cart''],
                            pendingLoads := [''/cart'', ''/cart'']\<rparr>) \<and>
   count_list (loaderCalls (stateOf
     (andThen (prefetchRoute ''/cart'' initialState) (prefetchRoute ''/cart'')))) ''/cart'' = 2"
  by (simp add: prefetchRoute_def andThen_def getProperty_def routeComponentMap_def
      initialState_def)

text \<open>
  The hooks themselves do this. A visitor logs in: the immediate wave of the second
  render and the login burst both ask for \<open>/cart\<close>, and when the burst runs before the
  import started by the wave has finished, the loader of \<open>/cart\<close> is called twice, both
  imports succeeding afterwards.
\<close>

lemma login_transition_calls_loader_twice:
  "map_option loaderCalls
     (run [(plainBrowser, Render anonymous ''/login''),
           (plainBrowser, Render customer ''/''),
           (plainBrowser, RunTask 3),
           (plainBrowser, RunTask 7),
           (plainBrowser, RunTask 5),
           (plainBrowser, SettleLoad 0 True),
           (plainBrowser, SettleLoad 0 True)] initialState) =
   Some [''/cart'', ''/cart'', ''/wishlist'', ''/profile'']"
  by (simp add: step_def usePrefetchRoutes_def scheduleWaves_def loginBurst_def adminBurst_def
      anonymous_def customer_def hasStaffRole_def staffRoles_def isOnAdminPage_def startsWith_def
      initialState_def dropAt_def finish_def fireWave_eq prefetchRoute_def andThen_def
      getProperty_def routeComponentMap_def settle_def say_def prefetchWithDelay_def
      safeRequestIdleCallback_def deferred_def plainBrowser_def shouldPrefetch_def
      selectedConnection_def)

section \<open>The network gate\<close>

lemma run_gate_closed:
  "run evs (initialState\<lparr>now := n\<rparr>) = Some s' \<Longrightarrow>
   \<forall>x \<in> set evs. \<not> shouldPrefetch (fst x) \<Longrightarrow>
   \<exists>m. s' = initialState\<lparr>now := m\<rparr>"
proof (induction evs arbitrary: n)
  case Nil
  then show ?case by auto
next
  case (Cons x evs)
  obtain e ev where x: "x = (e, ev)" by (cases x)
  from Cons.prems(2) x have closed: "\<not> shouldPrefetch e" by simp
  from Cons.prems(1) x obtain s1 where
    s1: "step e ev (initialState\<lparr>now := n\<rparr>) = Some s1" "run evs s1 = Some s'"
    by (auto split: option.splits)
  have empty: "tasks (initialState\<lparr>now := n\<rparr>) = []" "pendingLoads (initialState\<lparr>now := n\<rparr>) = []"
    by (simp_all add: initialState_def)
  from s1(1) closed empty obtain k where "s1 = initialState\<lparr>now := k\<rparr>"
    by (cases ev)
      (auto simp: step_def usePrefetchRoutes_def usePrefetchFromReturnUrl_def split: if_splits)
  with s1(2) Cons.IH [of k] Cons.prems(2) show ?case by simp
qed

lemma runCallback_not_gated:
  "\<forall>routes. cb \<noteq> WaveCallback routes \<Longrightarrow> runCallback e cb s = runCallback e' cb s"
  by (cases cb) simp_all




text \<open>
  Only the first connection object that is defined is consulted: a restriction that a
  later one reports does not close the gate.
\<close>

lemma later_connection_object_not_consulted:
  "reportsRestriction twoObjectsBrowser \<and> shouldPrefetch twoObjectsBrowser"
  by (simp add: reportsRestriction_def connectionObjects_def List.map_filter_simps
      twoObjectsBrowser_def shouldPrefetch_def selectedConnection_def slowConnections_def)

section \<open>The prefetch scheduler\<close>

text \<open>
  Claim C4. A run of the effect with \<open>authInitialized\<close> true and the network gate open
  starts exactly these wave timers, in this order, each due its delay after the time of
  the run. Not authenticated: \<open>/login\<close>, \<open>/register\<close> at delay 0; \<open>/catalog\<close>, \<open>/products\<close>
  at 1000; \<open>/privacy-policy\<close> at 5000. Authenticated: \<open>/catalog\<close>, \<open>/cart\<close>, \<open>/wishlist\<close>,
  \<open>/products\<close> at delay 0; \<open>/profile\<close>, \<open>/checkout\<close> at 3000; \<open>/privacy-policy\<close> at 5000;
  and the seven admin routes at 7000 if and only if the user is staff, that is, has one
  of the roles \<open>admin\<close>, \<open>marketer\<close>, \<open>consultant\<close>.
\<close>

theorem scheduled_waves:
  "(authInitialized a \<and> shouldPrefetch e \<longrightarrow>
      waveTimers (tasks (usePrefetchRoutes e a location s)) =
        waveTimers (tasks s) @
        (if \<not> isAuthenticated a
         then [(now s + 0, [''/login'', ''/register'']),
               (now s + 1000, [''/catalog'', ''/products'']),
               (now s + 5000, [''/privacy-policy''])]
         else [(now s + 0, [''/catalog'', ''/cart'', ''/wishlist'', ''/products'']),
               (now s + 3000, [''/profile'', ''/checkout'']),
               (now s + 5000, [''/privacy-policy''])] @
              (if hasStaffRole a
               then [(now s + 7000,
                      [''/admin'', ''/admin/products'', ''/admin/categories'', ''/admin/orders'',
                       ''/admin/promocodes'', ''/admin/users'', ''/admin/support''])]
               else []))) \<and>
   (hasStaffRole a \<longleftrightarrow>
      (\<exists>u rs. user a = Some u \<and> roles u = Some rs \<and>
              set rs \<inter> {''admin'', ''marketer'', ''consultant''} \<noteq> {}))"
proof (intro conjI impI)
  assume gates: "authInitialized a \<and> shouldPrefetch e"
  have bursts: "waveTimers (tasks (adminBurst e a location (loginBurst e a s'))) = waveTimers (tasks s')"
    for s'
    by (simp add: adminBurst_def loginBurst_def)
  have "waveTimers (tasks (usePrefetchRoutes e a location s)) = waveTimers (tasks (scheduleWaves a s))"
    using gates bursts by (simp add: usePrefetchRoutes_def)
  also have "\<dots> = waveTimers (tasks s) @
        (if \<not> isAuthenticated a
         then [(now s + 0, [''/login'', ''/register'']),
               (now s + 1000, [''/catalog'', ''/products'']),
               (now s + 5000, [''/privacy-policy''])]
         else [(now s + 0, [''/catalog'', ''/cart'', ''/wishlist'', ''/products'']),
               (now s + 3000, [''/profile'', ''/checkout'']),
               (now s + 5000, [''/privacy-policy''])] @
              (if hasStaffRole a
               then [(now s + 7000,
                      [''/admin'', ''/admin/products'', ''/admin/categories'', ''/admin/orders'',
                       ''/admin/promocodes'', ''/admin/users'', ''/admin/support''])]
               else []))"
    by (simp add: scheduleWaves_def adminRoutes_def)
  finally show "waveTimers (tasks (usePrefetchRoutes e a location s)) =
        waveTimers (tasks s) @
        (if \<not> isAuthenticated a
         then [(now s + 0, [''/login'', ''/register'']),
               (now s + 1000, [''/catalog'', ''/products'']),
               (now s + 5000, [''/privacy-policy''])]
         else [(now s + 0, [''/catalog'', ''/cart'', ''/wishlist'', ''/products'']),
               (now s + 3000, [''/profile'', ''/checkout'']),
               (now s + 5000, [''/privacy-policy''])] @
              (if hasStaffRole a
               then [(now s + 7000,
                      [''/admin'', ''/admin/products'', ''/admin/categories'', ''/admin/orders'',
                       ''/admin/promocodes'', ''/admin/users'', ''/admin/support''])]
               else []))" .
next
  show "hasStaffRole a \<longleftrightarrow>
      (\<exists>u rs. user a = Some u \<and> roles u = Some rs \<and>
              set rs \<inter> {''admin'', ''marketer'', ''consultant''} \<noteq> {})"
    by (rule hasStaffRole_iff)
qed

text \<open>An anonymous visitor, a customer and a staff user on a fresh state.\<close>

theorem scheduled_waves_witness:
  "waveTimers (tasks (usePrefetchRoutes plainBrowser anonymous ''/'' initialState)) =
     [(0, [''/login'', ''/register'']),
      (1000, [''/catalog'', ''/products'']),
      (5000, [''/privacy-policy''])] \<and>
   waveTimers (tasks (usePrefetchRoutes plainBrowser customer ''/'' initialState)) =
     [(0, [''/catalog'', ''/cart'', ''/wishlist'', ''/products'']),
      (3000, [''/profile'', ''/checkout'']),
      (5000, [''/privacy-policy''])] \<and>
   waveTimers (tasks (usePrefetchRoutes plainBrowser marketer ''/'' initialState)) =
     [(0, [''/catalog'', ''/cart'', ''/wishlist'', ''/products'']),
      (3000, [''/profile'', ''/checkout'']),
      (5000, [''/privacy-policy'']),
      (7000, [''/admin'', ''/admin/products'', ''/admin/categories'', ''/admin/orders'',
              ''/admin/promocodes'', ''/admin/users'', ''/admin/support''])]"
proof -
  have fields: "tasks initialState = []" "now initialState = 0"
    by (simp_all add: initialState_def)
  show ?thesis
    using scheduled_waves [of anonymous plainBrowser "''/''" initialState]
      scheduled_waves [of customer plainBrowser "''/''" initialState]
      scheduled_waves [of marketer plainBrowser "''/''" initialState]
    by (simp add: fields)
qed

text \<open>
  Claim C5, as the code has it. A run of the effect that gets past both gates, with the
  remembered flag false and the current flag true, hands the login burst to the idle
  scheduler, with no timeout and whatever the location is. When the burst runs it
  requests \<open>/cart\<close>, \<open>/wishlist\<close>, \<open>/profile\<close> at once: the loader of each of the three
  that is not loaded yet is called. If the user was staff at the time of the run, the
  burst also starts a timer for the wave of the seven admin routes, due 1000 ms after the
  burst runs; a timer never runs before it is due.
\<close>

theorem login_transition_burst:
  "(authInitialized a \<and> shouldPrefetch e \<and> previousAuthState s = Some False \<and> isAuthenticated a \<longrightarrow>
      deferred e (now s) (LoginBurstCallback (hasStaffRole a)) None
        \<in> set (tasks (usePrefetchRoutes e a location s))) \<and>
   runCallback e' (LoginBurstCallback staff) s0 =
     Returns (s0\<lparr>loaderCalls := loaderCalls s0 @
                  filter (\<lambda>r. r \<notin> prefetchedRoutes s0) [''/cart'', ''/wishlist'', ''/profile''],
                pendingLoads := pendingLoads s0 @
                  filter (\<lambda>r. r \<notin> prefetchedRoutes s0) [''/cart'', ''/wishlist'', ''/profile''],
                console := console s0 @ (if staff then [StaffUserDetected] else []),
                tasks := tasks s0 @
                  (if staff
                   then [Timeout (now s0 + 1000)
                          (WaveCallback
                            [''/admin'', ''/admin/products'', ''/admin/categories'',
                             ''/admin/orders'', ''/admin/promocodes'', ''/admin/users'',
                             ''/admin/support''])]
                   else [])\<rparr>) \<and>
   (i < length (tasks s1) \<and> tasks s1 ! i = Timeout (t + 1000) cb \<and> now s1 < t + 1000 \<longrightarrow>
      step e'' (RunTask i) s1 = None)"
proof (intro conjI impI)
  assume "authInitialized a \<and> shouldPrefetch e \<and> previousAuthState s = Some False \<and> isAuthenticated a"
  then show "deferred e (now s) (LoginBurstCallback (hasStaffRole a)) None
        \<in> set (tasks (usePrefetchRoutes e a location s))"
    by (simp add: usePrefetchRoutes_tasks)
next
  show "runCallback e' (LoginBurstCallback staff) s0 =
     Returns (s0\<lparr>loaderCalls := loaderCalls s0 @
                  filter (\<lambda>r. r \<notin> prefetchedRoutes s0) [''/cart'', ''/wishlist'', ''/profile''],
                pendingLoads := pendingLoads s0 @
                  filter (\<lambda>r. r \<notin> prefetchedRoutes s0) [''/cart'', ''/wishlist'', ''/profile''],
                console := console s0 @ (if staff then [StaffUserDetected] else []),
                tasks := tasks s0 @
                  (if staff
                   then [Timeout (now s0 + 1000)
                          (WaveCallback
                            [''/admin'', ''/admin/products'', ''/admin/categories'',
                             ''/admin/orders'', ''/admin/promocodes'', ''/admin/users'',
                             ''/admin/support''])]
                   else [])\<rparr>)"
    unfolding runCallback.simps prefetchEach_registered [OF burstRoutes_registered]
    by (simp add: andThen_def prefetchWithDelay_def say_def adminRoutes_def)
next
  assume "i < length (tasks s1) \<and> tasks s1 ! i = Timeout (t + 1000) cb \<and> now s1 < t + 1000"
  then show "step e'' (RunTask i) s1 = None"
    by (simp add: timer_not_before_due)
qed

text \<open>A staff user who has just logged in, and a timer of 1000 ms at time 0.\<close>

theorem login_transition_burst_witness:
  "IdleRequest (LoginBurstCallback True) None
     \<in> set (tasks (usePrefetchRoutes plainBrowser marketer ''/''
                    (initialState\<lparr>previousAuthState := Some False\<rparr>))) \<and>
   step plainBrowser (RunTask 0)
       (initialState\<lparr>tasks := [Timeout 1000 (WaveCallback [''/admin''])]\<rparr>) = None"
proof -
  let ?s = "initialState\<lparr>previousAuthState := Some False\<rparr>"
  let ?s1 = "initialState\<lparr>tasks := [Timeout 1000 (WaveCallback [''/admin''])]\<rparr>"
  have pre: "authInitialized marketer \<and> shouldPrefetch plainBrowser \<and>
      previousAuthState ?s = Some False \<and> isAuthenticated marketer"
    by simp
  have d: "deferred plainBrowser (now ?s) (LoginBurstCallback (hasStaffRole marketer)) None =
      IdleRequest (LoginBurstCallback True) None"
    by (simp add: deferred_def plainBrowser_def)
  have due: "0 < length (tasks ?s1) \<and> tasks ?s1 ! 0 = Timeout (0 + 1000) (WaveCallback [''/admin''])
      \<and> now ?s1 < 0 + 1000"
    by (simp add: initialState_def)
  from login_transition_burst [of marketer plainBrowser ?s "''/''" plainBrowser True initialState
      0 ?s1 0 "WaveCallback [''/admin'']" plainBrowser] pre d due
  show ?thesis by simp
qed

text \<open>
  The claim as it is worded covers every run of the effect. A visitor opens the login
  page (the flag false is remembered), switches the data saver on and logs in as staff:
  the second run ends at the network gate and leaves the state as the first run left it,
  three wave timers and no burst.
\<close>

theorem login_transition_gated_counterexample:
  "previousAuthState (usePrefetchRoutes plainBrowser anonymous ''/login'' initialState) = Some False \<and>
   isAuthenticated marketer \<and> authInitialized marketer \<and>
   usePrefetchRoutes dataSaverBrowser marketer ''/''
       (usePrefetchRoutes plainBrowser anonymous ''/login'' initialState) =
     usePrefetchRoutes plainBrowser anonymous ''/login'' initialState \<and>
   tasks (usePrefetchRoutes plainBrowser anonymous ''/login'' initialState) =
     [Timeout 0 (WaveCallback [''/login'', ''/register'']),
      Timeout 1000 (WaveCallback [''/catalog'', ''/products'']),
      Timeout 5000 (WaveCallback [''/privacy-policy''])]"
  by (simp add: usePrefetchRoutes_def scheduleWaves_def loginBurst_def adminBurst_def
      isOnAdminPage_def startsWith_def initialState_def prefetchWithDelay_def)

text \<open>
  Claim C6, as the code has it. A run of the effect that gets past both gates, with the
  location starting with \<open>/admin\<close>, a staff user and \<open>/admin\<close> not in the loaded set,
  hands the admin burst to the idle scheduler with no timeout: an idle request, or the
  fallback timer of one millisecond where the browser has no \<open>requestIdleCallback\<close>.
  When the burst runs it requests the seven admin routes at once: the loader of each one
  that is not loaded yet is called, and no timer is started.
\<close>

theorem admin_page_burst:
  "(authInitialized a \<and> shouldPrefetch e \<and> startsWith location ''/admin'' \<and> hasStaffRole a \<and>
    ''/admin'' \<notin> prefetchedRoutes s \<longrightarrow>
      deferred e (now s) AdminBurstCallback None \<in> set (tasks (usePrefetchRoutes e a location s))) \<and>
   runCallback e' AdminBurstCallback s0 =
     Returns (s0\<lparr>loaderCalls := loaderCalls s0 @
                  filter (\<lambda>r. r \<notin> prefetchedRoutes s0)
                    [''/admin'', ''/admin/products'', ''/admin/categories'', ''/admin/orders'',
                     ''/admin/promocodes'', ''/admin/users'', ''/admin/support''],
                pendingLoads := pendingLoads s0 @
                  filter (\<lambda>r. r \<notin> prefetchedRoutes s0)
                    [''/admin'', ''/admin/products'', ''/admin/categories'', ''/admin/orders'',
                     ''/admin/promocodes'', ''/admin/users'', ''/admin/support'']\<rparr>) \<and>
   deferred e time AdminBurstCallback None =
     (if hasRequestIdleCallback e then IdleRequest AdminBurstCallback None
      else Timeout (time + 1) AdminBurstCallback)"
proof (intro conjI impI)
  assume "authInitialized a \<and> shouldPrefetch e \<and> startsWith location ''/admin'' \<and> hasStaffRole a \<and>
    ''/admin'' \<notin> prefetchedRoutes s"
  then show "deferred e (now s) AdminBurstCallback None \<in> set (tasks (usePrefetchRoutes e a location s))"
    by (simp add: usePrefetchRoutes_tasks isOnAdminPage_def)
next
  show "runCallback e' AdminBurstCallback s0 =
     Returns (s0\<lparr>loaderCalls := loaderCalls s0 @
                  filter (\<lambda>r. r \<notin> prefetchedRoutes s0)
                    [''/admin'', ''/admin/products'', ''/admin/categories'', ''/admin/orders'',
                     ''/admin/promocodes'', ''/admin/users'', ''/admin/support''],
                pendingLoads := pendingLoads s0 @
                  filter (\<lambda>r. r \<notin> prefetchedRoutes s0)
                    [''/admin'', ''/admin/products'', ''/admin/categories'', ''/admin/orders'',
                     ''/admin/promocodes'', ''/admin/users'', ''/admin/support'']\<rparr>)"
    unfolding runCallback.simps prefetchEach_registered [OF adminRoutes_registered]
    by (simp add: adminRoutes_def)
next
  show "deferred e time AdminBurstCallback None =
     (if hasRequestIdleCallback e then IdleRequest AdminBurstCallback None
      else Timeout (time + 1) AdminBurstCallback)"
    by (simp add: deferred_def)
qed

text \<open>A staff user on \<open>/admin/orders\<close>, nothing loaded yet.\<close>

theorem admin_page_burst_witness:
  "IdleRequest AdminBurstCallback None
     \<in> set (tasks (usePrefetchRoutes plainBrowser marketer ''/admin/orders'' initialState))"
proof -
  have pre: "authInitialized marketer \<and> shouldPrefetch plainBrowser \<and>
      startsWith ''/admin/orders'' ''/admin'' \<and> hasStaffRole marketer \<and>
      ''/admin'' \<notin> prefetchedRoutes initialState"
    by (simp add: startsWith_def initialState_def)
  have d: "deferred plainBrowser (now initialState) AdminBurstCallback None =
      IdleRequest AdminBurstCallback None"
    by (simp add: deferred_def plainBrowser_def)
  from admin_page_burst [of marketer plainBrowser "''/admin/orders''" initialState] pre d
  show ?thesis by simp
qed

text \<open>
  The claim as it is worded covers every run of the effect. With the data saver on, the
  run for the same user on the same page ends at the network gate and schedules nothing.
\<close>

theorem admin_page_gated_counterexample:
  "startsWith ''/admin/orders'' ''/admin'' \<and> hasStaffRole marketer \<and>
   authInitialized marketer \<and> ''/admin'' \<notin> prefetchedRoutes initialState \<and>
   usePrefetchRoutes dataSaverBrowser marketer ''/admin/orders'' initialState = initialState \<and>
   tasks initialState = []"
  by (simp add: usePrefetchRoutes_def startsWith_def initialState_def)

text \<open>
  Claim C9, as the code has it. A run of the effect that gets past both gates ends by
  setting the remembered flag to the authentication flag of that run; a run that stops
  at a gate changes nothing, the remembered flag included. No other step of the event
  loop touches the remembered flag. So of two runs that get past the gates, one after the
  other, the second schedules the login burst exactly when the first saw the flag false
  and the second sees it true.
\<close>

theorem previousAuthState_updated:
  "(authInitialized a \<and> shouldPrefetch e \<longrightarrow>
      previousAuthState (usePrefetchRoutes e a location s) = Some (isAuthenticated a)) \<and>
   (\<not> authInitialized a \<or> \<not> shouldPrefetch e \<longrightarrow> usePrefetchRoutes e a location s = s) \<and>
   (step e ev s = Some s' \<and> (\<forall>a' location'. ev \<noteq> Render a' location') \<longrightarrow>
      previousAuthState s' = previousAuthState s) \<and>
   (authInitialized a \<and> shouldPrefetch e \<and> authInitialized a2 \<and> shouldPrefetch e2 \<longrightarrow>
      (deferred e2 (now s) (LoginBurstCallback (hasStaffRole a2)) None
         \<in> set (drop (length (tasks (usePrefetchRoutes e a location s)))
                  (tasks (usePrefetchRoutes e2 a2 location2 (usePrefetchRoutes e a location s))))
       \<longleftrightarrow> \<not> isAuthenticated a \<and> isAuthenticated a2))"
proof (intro conjI impI)
  assume "authInitialized a \<and> shouldPrefetch e"
  then show "previousAuthState (usePrefetchRoutes e a location s) = Some (isAuthenticated a)"
    by (simp add: usePrefetchRoutes_def)
next
  assume "\<not> authInitialized a \<or> \<not> shouldPrefetch e"
  then show "usePrefetchRoutes e a location s = s"
    by (auto simp: usePrefetchRoutes_def)
next
  assume "step e ev s = Some s' \<and> (\<forall>a' location'. ev \<noteq> Render a' location')"
  then show "previousAuthState s' = previousAuthState s"
    using step_previousAuthState [of e ev s s'] by (cases ev) auto
next
  assume g: "authInitialized a \<and> shouldPrefetch e \<and> authInitialized a2 \<and> shouldPrefetch e2"
  let ?s1 = "usePrefetchRoutes e a location s"
  have prev: "previousAuthState ?s1 = Some (isAuthenticated a)"
    using g by (simp add: usePrefetchRoutes_def)
  have waves: "set (drop (length (tasks ?s1)) (tasks (scheduleWaves a2 ?s1))) \<subseteq> range (\<lambda>(d, rs). Timeout d (WaveCallback rs))"
    by (auto simp: scheduleWaves_def Let_def)
  have notwave: "deferred e2 (now s) (LoginBurstCallback (hasStaffRole a2)) None
      \<notin> range (\<lambda>(d, rs). Timeout d (WaveCallback rs))"
    by (auto simp: deferred_def)
  have lw: "length (tasks ?s1) \<le> length (tasks (scheduleWaves a2 ?s1))"
    by (simp add: scheduleWaves_def Let_def)
  have "tasks (usePrefetchRoutes e2 a2 location2 ?s1) =
      tasks (scheduleWaves a2 ?s1) @
      (if previousAuthState ?s1 = Some False \<and> isAuthenticated a2
       then [deferred e2 (now ?s1) (LoginBurstCallback (hasStaffRole a2)) None] else []) @
      (if isOnAdminPage location2 \<and> hasStaffRole a2 \<and> ''/admin'' \<notin> prefetchedRoutes ?s1
       then [deferred e2 (now ?s1) AdminBurstCallback None] else [])"
    using g by (simp add: usePrefetchRoutes_tasks)
  then have "set (drop (length (tasks ?s1)) (tasks (usePrefetchRoutes e2 a2 location2 ?s1))) =
      set (drop (length (tasks ?s1)) (tasks (scheduleWaves a2 ?s1))) \<union>
      (if \<not> isAuthenticated a \<and> isAuthenticated a2
       then {deferred e2 (now s) (LoginBurstCallback (hasStaffRole a2)) None} else {}) \<union>
      (if isOnAdminPage location2 \<and> hasStaffRole a2 \<and> ''/admin'' \<notin> prefetchedRoutes s
       then {deferred e2 (now s) AdminBurstCallback None} else {})"
    using prev lw by (auto simp: )
  moreover have "deferred e2 (now s) (LoginBurstCallback (hasStaffRole a2)) None \<noteq>
      deferred e2 (now s) AdminBurstCallback None"
    by (simp add: deferred_def)
  ultimately show "deferred e2 (now s) (LoginBurstCallback (hasStaffRole a2)) None
         \<in> set (drop (length (tasks (usePrefetchRoutes e a location s)))
                  (tasks (usePrefetchRoutes e2 a2 location2 (usePrefetchRoutes e a location s))))
       \<longleftrightarrow> \<not> isAuthenticated a \<and> isAuthenticated a2"
    using waves notwave by auto
qed

text \<open>
  A customer on a fresh state, with the gate open and with the data saver on; time
  passing; and a visitor who logs in between two runs.
\<close>

theorem previousAuthState_updated_witness:
  "previousAuthState (usePrefetchRoutes plainBrowser customer ''/'' initialState) = Some True \<and>
   usePrefetchRoutes dataSaverBrowser customer ''/'' initialState = initialState \<and>
   previousAuthState (the (step plainBrowser (Elapse 5) initialState)) = None \<and>
   IdleRequest (LoginBurstCallback False) None
     \<in> set (drop 3 (tasks (usePrefetchRoutes plainBrowser customer ''/''
                            (usePrefetchRoutes plainBrowser anonymous ''/'' initialState))))"
proof -
  have g1: "authInitialized customer \<and> shouldPrefetch plainBrowser" by simp
  have g2: "\<not> authInitialized customer \<or> \<not> shouldPrefetch dataSaverBrowser" by simp
  have g3: "step plainBrowser (Elapse 5) initialState = Some (initialState\<lparr>now := 5\<rparr>) \<and>
      (\<forall>a' location'. Elapse 5 \<noteq> Render a' location')"
    by (simp add: step_def initialState_def)
  have g4: "authInitialized anonymous \<and> shouldPrefetch plainBrowser \<and>
      authInitialized customer \<and> shouldPrefetch plainBrowser" by simp
  have l: "length (tasks (usePrefetchRoutes plainBrowser anonymous ''/'' initialState)) = 3"
    by (simp add: usePrefetchRoutes_tasks scheduleWaves_def isOnAdminPage_def startsWith_def
        initialState_def)
  have d: "deferred plainBrowser (now initialState) (LoginBurstCallback (hasStaffRole customer)) None =
      IdleRequest (LoginBurstCallback False) None"
    by (simp add: deferred_def plainBrowser_def)
  have p: "previousAuthState initialState = None"
    by (simp add: initialState_def)
  from previousAuthState_updated [of customer plainBrowser "''/''" initialState]
    previousAuthState_updated [of customer dataSaverBrowser "''/''" initialState]
    previousAuthState_updated [of customer plainBrowser "''/''" initialState "Elapse 5"
      "initialState\<lparr>now := 5\<rparr>"]
    previousAuthState_updated [of anonymous plainBrowser "''/''" initialState "Elapse 5"
      "initialState\<lparr>now := 5\<rparr>" customer plainBrowser "''/''"]
    g1 g2 g3 g4 l d p
  show ?thesis by simp
qed

text \<open>
  The claim as it is worded covers every run of the effect. A run for an anonymous
  visitor remembers false; the next run, for the logged-in customer with the data saver
  on, stops at the network gate, and the remembered flag is still false after it.
\<close>

theorem previousAuthState_gated_counterexample:
  "isAuthenticated customer \<and> authInitialized customer \<and>
   previousAuthState
     (usePrefetchRoutes dataSaverBrowser customer ''/''
        (usePrefetchRoutes plainBrowser anonymous ''/login'' initialState)) = Some False"
  by (simp add: usePrefetchRoutes_def)

text \<open>
  Claim C10. \<open>prefetchWithDelay\<close> starts the timer of a wave without looking at the
  network gate. When the timer runs, \<open>shouldPrefetch\<close> is evaluated in the environment of
  that moment: if it allows, every route of the wave is handed to the idle scheduler with
  a timeout of 2000 ms; if it denies, the timer is gone and nothing else has changed, so
  no route of the wave is requested. In particular a wave that was scheduled (by a run
  that had passed the gate) and fires when the gate denies leaves the state as it was
  before the wave was scheduled, the clock apart.
\<close>

theorem wave_gate_at_fire:
  "(i < length (tasks s) \<and> tasks s ! i = Timeout due (WaveCallback routes) \<and> due \<le> now s \<longrightarrow>
      step e (RunTask i) s =
        Some (if shouldPrefetch e
              then s\<lparr>tasks := dropAt i (tasks s) @
                       map (\<lambda>route. deferred e (now s) (PrefetchCallback route) (Some 2000)) routes\<rparr>
              else s\<lparr>tasks := dropAt i (tasks s)\<rparr>)) \<and>
   prefetchWithDelay routes delay s =
     s\<lparr>tasks := tasks s @ [Timeout (now s + delay) (WaveCallback routes)]\<rparr> \<and>
   (\<not> shouldPrefetch e' \<longrightarrow>
      step e' (RunTask (length (tasks s))) ((prefetchWithDelay routes delay s)\<lparr>now := now s + delay\<rparr>) =
        Some (s\<lparr>now := now s + delay\<rparr>))"
proof (intro conjI impI)
  assume a: "i < length (tasks s) \<and> tasks s ! i = Timeout due (WaveCallback routes) \<and> due \<le> now s"
  then show "step e (RunTask i) s =
        Some (if shouldPrefetch e
              then s\<lparr>tasks := dropAt i (tasks s) @
                       map (\<lambda>route. deferred e (now s) (PrefetchCallback route) (Some 2000)) routes\<rparr>
              else s\<lparr>tasks := dropAt i (tasks s)\<rparr>)"
    by (simp add: step_def finish_def fireWave_eq)
next
  show "prefetchWithDelay routes delay s =
     s\<lparr>tasks := tasks s @ [Timeout (now s + delay) (WaveCallback routes)]\<rparr>"
    by (simp add: prefetchWithDelay_def)
next
  assume "\<not> shouldPrefetch e'"
  then show "step e' (RunTask (length (tasks s))) ((prefetchWithDelay routes delay s)\<lparr>now := now s + delay\<rparr>) =
        Some (s\<lparr>now := now s + delay\<rparr>)"
    by (simp add: step_def finish_def fireWave_eq prefetchWithDelay_def dropAt_def)
qed

text \<open>
  The first wave of an anonymous visitor, fired with the data saver switched on in the
  meantime, and fired with the gate still open.
\<close>

theorem wave_gate_at_fire_witness:
  "map_option tasks
     (run [(plainBrowser, Render anonymous ''/''),
           (dataSaverBrowser, RunTask 0)] initialState) =
     Some [Timeout 1000 (WaveCallback [''/catalog'', ''/products'']),
           Timeout 5000 (WaveCallback [''/privacy-policy''])] \<and>
   map_option tasks
     (run [(plainBrowser, Render anonymous ''/''),
           (plainBrowser, RunTask 0)] initialState) =
     Some [Timeout 1000 (WaveCallback [''/catalog'', ''/products'']),
           Timeout 5000 (WaveCallback [''/privacy-policy'']),
           IdleRequest (PrefetchCallback ''/login'') (Some 2000),
           IdleRequest (PrefetchCallback ''/register'') (Some 2000)] \<and>
   step dataSaverBrowser (RunTask 0)
       ((prefetchWithDelay [''/cart''] 3000 initialState)\<lparr>now := 3000\<rparr>) =
     Some (initialState\<lparr>now := 3000\<rparr>)"
proof -
  let ?s = "usePrefetchRoutes plainBrowser anonymous ''/'' initialState"
  have s: "?s = initialState\<lparr>previousAuthState := Some False,
      tasks := [Timeout 0 (WaveCallback [''/login'', ''/register'']),
                Timeout 1000 (WaveCallback [''/catalog'', ''/products'']),
                Timeout 5000 (WaveCallback [''/privacy-policy''])]\<rparr>"
    by (simp add: usePrefetchRoutes_def scheduleWaves_def loginBurst_def adminBurst_def
        isOnAdminPage_def startsWith_def initialState_def prefetchWithDelay_def)
  have pre: "0 < length (tasks ?s) \<and> tasks ?s ! 0 = Timeout 0 (WaveCallback [''/login'', ''/register''])
      \<and> 0 \<le> now ?s"
    by (simp add: s)
  have d: "deferred plainBrowser t cb opts = IdleRequest cb opts" for t cb opts
    by (simp add: deferred_def plainBrowser_def)
  have fields: "tasks initialState = []" "now initialState = 0"
    by (simp_all add: initialState_def)
  have late: "step dataSaverBrowser (RunTask 0)
       ((prefetchWithDelay [''/cart''] 3000 initialState)\<lparr>now := 3000\<rparr>) =
     Some (initialState\<lparr>now := 3000\<rparr>)"
    using wave_gate_at_fire [of 0 initialState 0 "[''/cart'']" plainBrowser 3000 dataSaverBrowser]
    by (simp add: fields)
  from wave_gate_at_fire [of 0 ?s 0 "[''/login'', ''/register'']" dataSaverBrowser]
    wave_gate_at_fire [of 0 ?s 0 "[''/login'', ''/register'']" plainBrowser] pre late
  show ?thesis
    by (simp add: step_def s dropAt_def d)
qed

section \<open>The loaded set\<close>

text \<open>
  Claim C8. Along every run of the event loop the loaded set only grows. A step puts a
  route into it only by fulfilling a pending loader promise of that route; so in every
  state reached from the initial one, each route of the loaded set has had its loader
  called and its success logged. The rejection of a promise removes that promise, writes
  the failure to the console and changes nothing else: in particular the route is not
  added. Whether a request calls the loader depends on the loaded set and the table
  alone: a route with a loader that is not in the loaded set has its loader called, earlier
  failures or not.
\<close>

theorem loaded_set_insertion_only:
  "(run evs s = Some s' \<longrightarrow> prefetchedRoutes s \<subseteq> prefetchedRoutes s') \<and>
   (step e ev s = Some s' \<and> route \<in> prefetchedRoutes s' \<and> route \<notin> prefetchedRoutes s \<longrightarrow>
      (\<exists>i. ev = SettleLoad i True \<and> i < length (pendingLoads s) \<and> pendingLoads s ! i = route)) \<and>
   (run evs initialState = Some s' \<and> route \<in> prefetchedRoutes s' \<longrightarrow>
      route \<in> set (loaderCalls s') \<and> Prefetched route \<in> set (console s')) \<and>
   (step e (SettleLoad i False) s = Some s' \<longrightarrow>
      s' = s\<lparr>pendingLoads := dropAt i (pendingLoads s),
              console := console s @ [FailedToPrefetch (pendingLoads s ! i)]\<rparr>) \<and>
   (route \<notin> prefetchedRoutes s \<and> map_of routeComponentMap route \<noteq> None \<longrightarrow>
      loaderCalls (stateOf (prefetchRoute route s)) = loaderCalls s @ [route])"
proof (intro conjI impI)
  assume "run evs s = Some s'"
  then show "prefetchedRoutes s \<subseteq> prefetchedRoutes s'" by (rule run_mono)
next
  assume a: "step e ev s = Some s' \<and> route \<in> prefetchedRoutes s' \<and> route \<notin> prefetchedRoutes s"
  with step_prefetchedRoutes [of e ev s s'] obtain i where
    i: "ev = SettleLoad i True" "route = pendingLoads s ! i"
    by (cases ev) (auto split: if_splits)
  with a have "i < length (pendingLoads s)"
    by (auto simp: step_def split: if_splits)
  with i show "\<exists>i. ev = SettleLoad i True \<and> i < length (pendingLoads s) \<and> pendingLoads s ! i = route"
    by blast
next
  assume a: "run evs initialState = Some s' \<and> route \<in> prefetchedRoutes s'"
  have "set (pendingLoads initialState) \<subseteq> set (loaderCalls initialState)"
    "\<forall>r \<in> prefetchedRoutes initialState.
       r \<in> set (loaderCalls initialState) \<and> Prefetched r \<in> set (console initialState)"
    by (simp_all add: initialState_def)
  from run_invariant [OF _ this] a
  show "route \<in> set (loaderCalls s')" "Prefetched route \<in> set (console s')" by blast+
next
  assume "step e (SettleLoad i False) s = Some s'"
  then show "s' = s\<lparr>pendingLoads := dropAt i (pendingLoads s),
              console := console s @ [FailedToPrefetch (pendingLoads s ! i)]\<rparr>"
    by (auto simp: step_def settle_def say_def split: if_splits)
next
  assume "route \<notin> prefetchedRoutes s \<and> map_of routeComponentMap route \<noteq> None"
  then show "loaderCalls (stateOf (prefetchRoute route s)) = loaderCalls s @ [route]"
    by (simp add: prefetchRoute_loaderCalls)
qed

text \<open>
  A return URL \<open>/cart\<close> whose load fails, then the same once more, succeeding: the loader
  is called both times and the route is in the loaded set after the second. And the single
  steps on the way: the fulfilment that puts the route in, the rejection that leaves only
  a line on the console, and the request on the fresh state.
\<close>

theorem loaded_set_insertion_only_witness:
  "run [(plainBrowser, Mount (Some ''/cart?from=mail'')),
        (plainBrowser, RunTask 0),
        (plainBrowser, SettleLoad 0 False),
        (plainBrowser, Mount (Some ''/cart'')),
        (plainBrowser, RunTask 0),
        (plainBrowser, SettleLoad 0 True)] initialState =
     Some (initialState\<lparr>prefetchedRoutes := {''/cart''}, loaderCalls := [''/cart'', ''/cart''],
             console := [DetectedReturnUrl ''/cart?from=mail'', FailedToPrefetch ''/cart'',
                         DetectedReturnUrl ''/cart'', Prefetched ''/cart'']\<rparr>) \<and>
   prefetchedRoutes initialState \<subseteq> {''/cart''} \<and>
   ''/cart'' \<in> set [''/cart'', ''/cart''] \<and>
   Prefetched ''/cart'' \<in> set [DetectedReturnUrl ''/cart?from=mail'', FailedToPrefetch ''/cart'',
                                  DetectedReturnUrl ''/cart'', Prefetched ''/cart''] \<and>
   (\<exists>i. SettleLoad 0 True = SettleLoad i True \<and> i < length [''/cart''] \<and> [''/cart''] ! i = ''/cart'') \<and>
   step plainBrowser (SettleLoad 0 False)
       (initialState\<lparr>loaderCalls := [''/cart''], pendingLoads := [''/cart'']\<rparr>) =
     Some (initialState\<lparr>loaderCalls := [''/cart''], console := [FailedToPrefetch ''/cart'']\<rparr>) \<and>
   loaderCalls (stateOf (prefetchRoute ''/cart'' initialState)) = [''/cart'']"
proof -
  let ?evs = "[(plainBrowser, Mount (Some ''/cart?from=mail'')),
           (plainBrowser, RunTask 0),
           (plainBrowser, SettleLoad 0 False),
           (plainBrowser, Mount (Some ''/cart'')),
           (plainBrowser, RunTask 0),
           (plainBrowser, SettleLoad 0 True)]"
  let ?end = "initialState\<lparr>prefetchedRoutes := {''/cart''}, loaderCalls := [''/cart'', ''/cart''],
      console := [DetectedReturnUrl ''/cart?from=mail'', FailedToPrefetch ''/cart'',
           DetectedReturnUrl ''/cart'', Prefetched ''/cart'']\<rparr>"
  let ?pending = "initialState\<lparr>loaderCalls := [''/cart''], pendingLoads := [''/cart'']\<rparr>"
  let ?loaded = "initialState\<lparr>loaderCalls := [''/cart''], prefetchedRoutes := {''/cart''},
      console := [Prefetched ''/cart'']\<rparr>"
  let ?failed = "initialState\<lparr>loaderCalls := [''/cart''], console := [FailedToPrefetch ''/cart'']\<rparr>"
  have fields: "prefetchedRoutes initialState = {}" "pendingLoads initialState = []"
    "loaderCalls initialState = []" "console initialState = []"
    by (simp_all add: initialState_def)
  have r: "run ?evs initialState = Some ?end"
    by (simp add: step_def usePrefetchFromReturnUrl_def safeRequestIdleCallback_def say_def
        plainBrowser_def shouldPrefetch_def selectedConnection_def initialState_def dropAt_def
        finish_def returnUrlRoute_def normalizedUrl_def startsWith_def prefetchRoute_def
        getProperty_def routeComponentMap_def settle_def)
  have m: "''/cart'' \<in> prefetchedRoutes ?end" by simp
  have ok: "step plainBrowser (SettleLoad 0 True) ?pending = Some ?loaded"
    by (simp add: step_def settle_def say_def dropAt_def fields)
  have fresh: "''/cart'' \<in> prefetchedRoutes ?loaded \<and> ''/cart'' \<notin> prefetchedRoutes ?pending"
    by (simp add: fields)
  have failed: "step plainBrowser (SettleLoad 0 False) ?pending = Some ?failed"
    by (simp add: step_def settle_def say_def dropAt_def fields)
  have known: "''/cart'' \<notin> prefetchedRoutes initialState \<and> map_of routeComponentMap ''/cart'' \<noteq> None"
    by (simp add: fields routeComponentMap_def)
  note along = loaded_set_insertion_only [of ?evs initialState ?end plainBrowser "Elapse 0" "''/cart''" 0]
  note fulfil = loaded_set_insertion_only [of "[]" ?pending ?loaded plainBrowser "SettleLoad 0 True" "''/cart''" 0]
  note reject = loaded_set_insertion_only [of "[]" ?pending ?failed plainBrowser "Elapse 0" "''/cart''" 0]
  note again = loaded_set_insertion_only [of "[]" initialState initialState plainBrowser "Elapse 0" "''/cart''" 0]
  from along r m have 1: "prefetchedRoutes initialState \<subseteq> {''/cart''}"
    "''/cart'' \<in> set [''/cart'', ''/cart'']"
    "Prefetched ''/cart'' \<in> set [DetectedReturnUrl ''/cart?from=mail'', FailedToPrefetch ''/cart'',
                                  DetectedReturnUrl ''/cart'', Prefetched ''/cart'']"
    by simp_all
  from fulfil ok fresh
  have 2: "\<exists>i. SettleLoad 0 True = SettleLoad i True \<and> i < length [''/cart''] \<and> [''/cart''] ! i = ''/cart''"
    by (simp add: fields)
  from again known have 3: "loaderCalls (stateOf (prefetchRoute ''/cart'' initialState)) = [''/cart'']"
    by (simp add: fields)
  from reject failed have 4: "?failed = ?pending\<lparr>pendingLoads := dropAt 0 (pendingLoads ?pending),
      console := console ?pending @ [FailedToPrefetch (pendingLoads ?pending ! 0)]\<rparr>"
    by blast
  from r 1 2 3 4 failed show ?thesis by simp
qed

section \<open>The return-URL prefetcher\<close>

text \<open>
  What the callback does with a return URL. It cuts the URL at its first \<open>?\<close> or \<open>#\<close>.
  If what is left starts with \<open>/cart\<close>, \<open>/wishlist\<close>, \<open>/profile\<close> or \<open>/checkout\<close>, that
  route is requested. If it starts with \<open>/admin\<close>, the pieces between the slashes are
  counted: two pieces give \<open>/admin\<close>, three give \<open>/admin/\<close> followed by the third piece,
  more give nothing. Anything else gives nothing. With the network gate open and a return
  URL that is not empty, the effect hands one callback to the idle scheduler with a
  timeout of 500 ms; the callback makes at most one request and always returns.
\<close>

lemma returnUrl_prefetch:
  "normalizedUrl u = takeWhile (\<lambda>c. c \<noteq> CHR ''?'' \<and> c \<noteq> CHR ''#'') u \<and>
   returnUrlRoute ''/admin/users?x=1'' = Some ''/admin/users'' \<and>
   returnUrlRoute ''/admin'' = Some ''/admin'' \<and>
   returnUrlRoute ''/unknown/path'' = None \<and>
   (p \<in> {''/cart'', ''/wishlist'', ''/profile'', ''/checkout''} \<and> startsWith (normalizedUrl u) p \<longrightarrow>
      returnUrlRoute u = Some p) \<and>
   (startsWith (normalizedUrl u) ''/admin'' \<longrightarrow>
      returnUrlRoute u =
        (case js_split CHR ''/'' (normalizedUrl u) of
           [a, b] \<Rightarrow> Some ''/admin''
         | [a, b, segment] \<Rightarrow> Some (''/admin/'' @ segment)
         | _ \<Rightarrow> None)) \<and>
   (\<not> startsWith (normalizedUrl u) ''/cart'' \<and> \<not> startsWith (normalizedUrl u) ''/wishlist'' \<and>
    \<not> startsWith (normalizedUrl u) ''/profile'' \<and> \<not> startsWith (normalizedUrl u) ''/checkout'' \<and>
    \<not> startsWith (normalizedUrl u) ''/admin'' \<longrightarrow> returnUrlRoute u = None) \<and>
   (CHR ''/'' \<notin> set seg \<and> CHR ''?'' \<notin> set seg \<and> CHR ''#'' \<notin> set seg \<and>
    (sep = CHR ''?'' \<or> sep = CHR ''#'') \<longrightarrow>
      returnUrlRoute (''/admin/'' @ seg @ sep # rest) = Some (''/admin/'' @ seg) \<and>
      returnUrlRoute (''/admin/'' @ seg) = Some (''/admin/'' @ seg) \<and>
      returnUrlRoute (''/admin'' @ sep # rest) = Some ''/admin'') \<and>
   (shouldPrefetch e \<and> u \<noteq> [] \<longrightarrow>
      usePrefetchFromReturnUrl e (Some u) s =
        s\<lparr>console := console s @ [DetectedReturnUrl u],
          tasks := tasks s @ [deferred e (now s) (ReturnUrlCallback u) (Some 500)]\<rparr>) \<and>
   runCallback e' (ReturnUrlCallback u) s0 =
     (case returnUrlRoute u of None \<Rightarrow> Returns s0 | Some route \<Rightarrow> prefetchRoute route s0) \<and>
   (\<exists>s1. runCallback e' (ReturnUrlCallback u) s0 = Returns s1 \<and>
         length (loaderCalls s1) \<le> length (loaderCalls s0) + 1)"
proof (intro conjI impI)
  show "normalizedUrl u = takeWhile (\<lambda>c. c \<noteq> CHR ''?'' \<and> c \<noteq> CHR ''#'') u"
    by (rule normalizedUrl_eq)
  show "returnUrlRoute ''/admin/users?x=1'' = Some ''/admin/users''"
    by (simp add: returnUrlRoute_def normalizedUrl_def startsWith_def)
  show "returnUrlRoute ''/admin'' = Some ''/admin''"
    by (simp add: returnUrlRoute_def normalizedUrl_def startsWith_def)
  show "returnUrlRoute ''/unknown/path'' = None"
    by (simp add: returnUrlRoute_def normalizedUrl_def startsWith_def)
next
  assume "p \<in> {''/cart'', ''/wishlist'', ''/profile'', ''/checkout''} \<and> startsWith (normalizedUrl u) p"
  then obtain t where "p \<in> {''/cart'', ''/wishlist'', ''/profile'', ''/checkout''}"
    "normalizedUrl u = p @ t"
    by (auto simp: startsWith_iff)
  then show "returnUrlRoute u = Some p"
    by (auto simp: returnUrlRoute_def startsWith_def)
next
  assume "startsWith (normalizedUrl u) ''/admin''"
  then obtain t where t: "normalizedUrl u = ''/admin'' @ t"
    by (auto simp: startsWith_iff)
  have other: "\<not> startsWith (normalizedUrl u) ''/cart''" "\<not> startsWith (normalizedUrl u) ''/wishlist''"
    "\<not> startsWith (normalizedUrl u) ''/profile''" "\<not> startsWith (normalizedUrl u) ''/checkout''"
    "startsWith (normalizedUrl u) ''/admin''"
    unfolding t by (simp_all add: startsWith_def)
  show "returnUrlRoute u =
        (case js_split CHR ''/'' (normalizedUrl u) of
           [a, b] \<Rightarrow> Some ''/admin''
         | [a, b, segment] \<Rightarrow> Some (''/admin/'' @ segment)
         | _ \<Rightarrow> None)"
    unfolding returnUrlRoute_def Let_def using other
    by (auto split: list.splits)
next
  assume "\<not> startsWith (normalizedUrl u) ''/cart'' \<and> \<not> startsWith (normalizedUrl u) ''/wishlist'' \<and>
    \<not> startsWith (normalizedUrl u) ''/profile'' \<and> \<not> startsWith (normalizedUrl u) ''/checkout'' \<and>
    \<not> startsWith (normalizedUrl u) ''/admin''"
  then show "returnUrlRoute u = None"
    by (simp add: returnUrlRoute_def)
next
  assume a: "CHR ''/'' \<notin> set seg \<and> CHR ''?'' \<notin> set seg \<and> CHR ''#'' \<notin> set seg \<and>
    (sep = CHR ''?'' \<or> sep = CHR ''#'')"
  have n1: "normalizedUrl (''/admin/'' @ seg @ sep # rest) = ''/admin/'' @ seg"
    using normalizedUrl_stops [of "''/admin/'' @ seg" sep rest] a by simp
  have n2: "normalizedUrl (''/admin/'' @ seg) = ''/admin/'' @ seg"
    using normalizedUrl_whole [of "''/admin/'' @ seg"] a by simp
  have n3: "normalizedUrl (''/admin'' @ sep # rest) = ''/admin''"
    using normalizedUrl_stops [of "''/admin''" sep rest] a by simp
  show "returnUrlRoute (''/admin/'' @ seg @ sep # rest) = Some (''/admin/'' @ seg)"
    using returnUrlRoute_admin_segment [OF n1] a by simp
  show "returnUrlRoute (''/admin/'' @ seg) = Some (''/admin/'' @ seg)"
    using returnUrlRoute_admin_segment [OF n2] a by simp
  show "returnUrlRoute (''/admin'' @ sep # rest) = Some ''/admin''"
    using n3 by (simp add: returnUrlRoute_def startsWith_def)
next
  assume "shouldPrefetch e \<and> u \<noteq> []"
  then show "usePrefetchFromReturnUrl e (Some u) s =
        s\<lparr>console := console s @ [DetectedReturnUrl u],
          tasks := tasks s @ [deferred e (now s) (ReturnUrlCallback u) (Some 500)]\<rparr>"
    by (simp add: usePrefetchFromReturnUrl_def safeRequestIdleCallback_def deferred_def say_def)
next
  show "runCallback e' (ReturnUrlCallback u) s0 =
     (case returnUrlRoute u of None \<Rightarrow> Returns s0 | Some route \<Rightarrow> prefetchRoute route s0)"
    by simp
next
  show "\<exists>s1. runCallback e' (ReturnUrlCallback u) s0 = Returns s1 \<and>
         length (loaderCalls s1) \<le> length (loaderCalls s0) + 1"
  proof (cases "returnUrlRoute u")
    case None
    then show ?thesis by simp
  next
    case (Some route)
    from prefetchRoute_slash [OF returnUrlRoute_slash [OF Some], of s0]
    obtain s1 where s1: "prefetchRoute route s0 = Returns s1" by blast
    with prefetchRoute_loaderCalls [of route s0]
    have "length (loaderCalls s1) \<le> length (loaderCalls s0) + 1"
      by (simp split: if_splits)
    with s1 Some show ?thesis by simp
  qed
qed

text \<open>
  A wishlist link with a fragment, an admin link with a fragment, an admin link with two
  segments appended, a link to the catalog, and the example of the specification from
  the effect to the loader call.
\<close>

lemma returnUrl_prefetch_examples:
  "returnUrlRoute ''/wishlist/shared#top'' = Some ''/wishlist'' \<and>
   returnUrlRoute ''/admin/orders#latest'' = Some ''/admin/orders'' \<and>
   returnUrlRoute ''/admin/users/7'' = None \<and>
   returnUrlRoute ''/catalog'' = None \<and>
   usePrefetchFromReturnUrl plainBrowser (Some ''/admin/users?x=1'') initialState =
     initialState\<lparr>console := [DetectedReturnUrl ''/admin/users?x=1''],
                   tasks := [IdleRequest (ReturnUrlCallback ''/admin/users?x=1'') (Some 500)]\<rparr> \<and>
   runCallback plainBrowser (ReturnUrlCallback ''/admin/users?x=1'') initialState =
     Returns (initialState\<lparr>loaderCalls := [''/admin/users''], pendingLoads := [''/admin/users'']\<rparr>)"
proof -
  have n: "normalizedUrl ''/wishlist/shared#top'' = ''/wishlist/shared''"
    "normalizedUrl ''/admin/users/7'' = ''/admin/users/7''"
    "normalizedUrl ''/catalog'' = ''/catalog''"
    by (simp_all add: normalizedUrl_def)
  have w: "''/wishlist'' \<in> {''/cart'', ''/wishlist'', ''/profile'', ''/checkout''} \<and>
      startsWith (normalizedUrl ''/wishlist/shared#top'') ''/wishlist''"
    by (simp add: n startsWith_def)
  have o: "CHR ''/'' \<notin> set ''orders'' \<and> CHR ''?'' \<notin> set ''orders'' \<and> CHR ''#'' \<notin> set ''orders'' \<and>
      (CHR ''#'' = CHR ''?'' \<or> CHR ''#'' = CHR ''#'')"
    by simp
  have a: "startsWith (normalizedUrl ''/admin/users/7'') ''/admin''"
    by (simp add: n startsWith_def)
  have c: "\<not> startsWith (normalizedUrl ''/catalog'') ''/cart'' \<and>
      \<not> startsWith (normalizedUrl ''/catalog'') ''/wishlist'' \<and>
      \<not> startsWith (normalizedUrl ''/catalog'') ''/profile'' \<and>
      \<not> startsWith (normalizedUrl ''/catalog'') ''/checkout'' \<and>
      \<not> startsWith (normalizedUrl ''/catalog'') ''/admin''"
    by (simp add: n startsWith_def)
  have g: "shouldPrefetch plainBrowser \<and> ''/admin/users?x=1'' \<noteq> []"
    by simp
  have d: "deferred plainBrowser t cb opts = IdleRequest cb opts" for t cb opts
    by (simp add: deferred_def plainBrowser_def)
  have fields: "console initialState = []" "tasks initialState = []"
    by (simp_all add: initialState_def)
  have r1: "returnUrlRoute ''/wishlist/shared#top'' = Some ''/wishlist''"
    using returnUrl_prefetch [of "''/wishlist/shared#top''" "''/wishlist''"] w by blast
  have r2: "returnUrlRoute ''/admin/orders#latest'' = Some ''/admin/orders''"
    using returnUrl_prefetch [of "[]" "[]" "''orders''" "CHR ''#''" "''latest''"] o by simp
  have r3: "returnUrlRoute ''/admin/users/7'' = None"
    using returnUrl_prefetch [of "''/admin/users/7''"] a by (simp add: n)
  have r4: "returnUrlRoute ''/catalog'' = None"
    using returnUrl_prefetch [of "''/catalog''"] c by blast
  have r5: "usePrefetchFromReturnUrl plainBrowser (Some ''/admin/users?x=1'') initialState =
     initialState\<lparr>console := [DetectedReturnUrl ''/admin/users?x=1''],
                   tasks := [IdleRequest (ReturnUrlCallback ''/admin/users?x=1'') (Some 500)]\<rparr>"
    using returnUrl_prefetch [of "''/admin/users?x=1''" "[]" "[]" "CHR ''?''" "[]" plainBrowser initialState] g
    by (simp add: d fields)
  have r6: "runCallback plainBrowser (ReturnUrlCallback ''/admin/users?x=1'') initialState =
     Returns (initialState\<lparr>loaderCalls := [''/admin/users''], pendingLoads := [''/admin/users'']\<rparr>)"
    using returnUrl_prefetch [of "''/admin/users?x=1''"]
    by (simp add: prefetchRoute_def getProperty_def routeComponentMap_def initialState_def)
  from r1 r2 r3 r4 r5 r6 show ?thesis by simp
qed

text \<open>
  The test for \<open>/admin\<close> is a test on the characters of the URL, and the second piece is
  never compared with \<open>admin\<close>: whatever follows \<open>/admin\<close> up to the next slash is
  ignored.
\<close>

lemma returnUrlRoute_admin_prefix:
  assumes "CHR ''/'' \<notin> set x"
  shows "normalizedUrl u = ''/admin'' @ x \<Longrightarrow> returnUrlRoute u = Some ''/admin''"
    and "normalizedUrl u = ''/admin'' @ x @ CHR ''/'' # seg \<Longrightarrow> CHR ''/'' \<notin> set seg \<Longrightarrow>
         returnUrlRoute u = Some (''/admin/'' @ seg)"
proof -
  have first: "CHR ''/'' \<notin> set (''admin'' @ x)"
    using assms by simp
  have one: "js_split CHR ''/'' (''/admin'' @ x) = [[], ''admin'' @ x]"
    using js_split_no_separator [OF first] by simp
  show "returnUrlRoute u = Some ''/admin''" if "normalizedUrl u = ''/admin'' @ x"
    using that one by (simp add: returnUrlRoute_def startsWith_def)
  have two: "js_split CHR ''/'' (''/admin'' @ x @ CHR ''/'' # seg) = [[], ''admin'' @ x, seg]"
    if "CHR ''/'' \<notin> set seg"
    using js_split_append [OF first, of seg] js_split_no_separator [OF that] by simp
  show "returnUrlRoute u = Some (''/admin/'' @ seg)"
    if "normalizedUrl u = ''/admin'' @ x @ CHR ''/'' # seg" "CHR ''/'' \<notin> set seg"
    using that two by (simp add: returnUrlRoute_def startsWith_def)
qed

text \<open>
  Claim C7. The claim: the return URL, cut at its query or fragment, is matched against
  \<open>/cart\<close>, \<open>/wishlist\<close>, \<open>/profile\<close>, \<open>/checkout\<close>, or \<open>/admin\<close> with optionally exactly
  one path segment appended, and the route requested is the matched one; \<open>/unknown/path\<close>
  requests nothing. The code at the return URL \<open>/adminx/users\<close>: the URL is neither
  \<open>/admin\<close> nor \<open>/admin/\<close> with a segment, and does not start with any of the other four
  routes; it starts with the characters \<open>/admin\<close> and has three pieces, so the callback
  requests \<open>/admin/users\<close>, a route that the URL does not start with, and the loader of
  the users page is called. In the same way \<open>/administrator\<close> requests \<open>/admin\<close>.
\<close>

theorem returnUrl_admin_prefix_divergence:
  "normalizedUrl ''/adminx/users'' = ''/adminx/users'' \<and>
   js_split CHR ''/'' ''/adminx/users'' = [[], ''adminx'', ''users''] \<and>
   \<not> startsWith ''/adminx/users'' ''/admin/'' \<and>
   returnUrlRoute ''/adminx/users'' = Some ''/admin/users'' \<and>
   \<not> startsWith ''/adminx/users'' ''/admin/users'' \<and>
   runCallback plainBrowser (ReturnUrlCallback ''/adminx/users'') initialState =
     Returns (initialState\<lparr>loaderCalls := [''/admin/users''],
                            pendingLoads := [''/admin/users'']\<rparr>) \<and>
   returnUrlRoute ''/administrator'' = Some ''/admin''"
  by (simp add: returnUrlRoute_def normalizedUrl_def startsWith_def prefetchRoute_def
      getProperty_def routeComponentMap_def initialState_def)

end
